theory Spec2Isabelle
  imports Complex_Main "HOL-Library.AList"
begin

section \<open>The upload server (src/upload_server.py)\<close>

text \<open>
  The server keeps everything under one directory UPLOAD\_ROOT: one sub-directory per
  upload id, holding \<open>meta_filename.txt\<close> and the files \<open>chunk_<index>.part\<close>, and
  the assembled files \<open><upload_id>__<original_name>\<close>. A session directory is modelled
  by the text of \<open>meta_filename.txt\<close> (if the file is there) and the chunk files as an
  association list from the index in the file name to the file's bytes, in directory
  order (\<open>os.listdir\<close> gives no order; the code sorts). The assembled files are a map
  from file name to bytes.
\<close>

type_synonym bytes = "char list"

datatype 'a response = Ok200 'a | HTTPError nat

record session_dir =
  meta_filename :: "string option"
  parts :: "(int \<times> bytes) list"

record server =
  dirs :: "string \<rightharpoonup> session_dir"
  finals :: "string \<rightharpoonup> bytes"

definition empty_server :: server where
  "empty_server = \<lparr>dirs = Map.empty, finals = Map.empty\<rparr>"

definition CHUNK_SIZE :: nat where
  "CHUNK_SIZE = 10 * 1024 * 1024"

text \<open>
  \<open>initiate\<close>: the id is \<open>str(uuid.uuid4())\<close>, drawn by the environment and passed in as
  \<open>uid\<close>. \<open>os.makedirs(d, exist_ok=True)\<close> keeps a directory that is already there;
  \<open>meta_filename.txt\<close> is (over)written with the request's filename.
\<close>

definition initiate :: "string \<Rightarrow> string \<Rightarrow> server \<Rightarrow> (string \<times> nat) response \<times> server" where
  "initiate uid fname s =
     (let d = (case dirs s uid of
                 None \<Rightarrow> \<lparr>meta_filename = None, parts = []\<rparr>
               | Some d0 \<Rightarrow> d0)
      in (Ok200 (uid, CHUNK_SIZE),
          s\<lparr>dirs := (dirs s)(uid \<mapsto> d\<lparr>meta_filename := Some fname\<rparr>)\<rparr>))"

text \<open>\<open>status\<close>: 404 for an unknown id, else the sorted indices of the chunk files.\<close>

definition status :: "string \<Rightarrow> server \<Rightarrow> int list response" where
  "status uid s =
     (case dirs s uid of
        None \<Rightarrow> HTTPError 404
      | Some d \<Rightarrow> Ok200 (sort (map fst (parts d))))"

text \<open>
  \<open>upload_chunk\<close>: 404 for an unknown id; else \<open>chunk_<index>.part\<close> is opened with
  mode \<open>wb\<close> (created or truncated) and the body written to it. The first argument is
  the disk's behaviour: \<open>None\<close> when every write succeeds, \<open>Some n\<close> when the write
  raises after \<open>n\<close> bytes, which the handler turns into a 500.
\<close>

definition upload_chunk ::
  "nat option \<Rightarrow> string \<Rightarrow> int \<Rightarrow> bytes \<Rightarrow> server \<Rightarrow> int response \<times> server" where
  "upload_chunk wfail uid index data s =
     (case dirs s uid of
        None \<Rightarrow> (HTTPError 404, s)
      | Some d \<Rightarrow>
          (case wfail of
             None \<Rightarrow>
               (Ok200 index,
                s\<lparr>dirs := (dirs s)(uid \<mapsto> d\<lparr>parts := AList.update index data (parts d)\<rparr>)\<rparr>)
           | Some n \<Rightarrow>
               (HTTPError 500,
                s\<lparr>dirs := (dirs s)(uid \<mapsto>
                      d\<lparr>parts := AList.update index (take n data) (parts d)\<rparr>)\<rparr>)))"

text \<open>
  Reading \<open>meta_filename.txt\<close> in text mode translates \<open>\r\n\<close> and \<open>\r\<close> to
  \<open>\n\<close>; \<open>str.strip()\<close> removes leading and trailing whitespace (the code points
  below 256 for which \<open>str.isspace\<close> holds).
\<close>

fun universal_newlines :: "string \<Rightarrow> string" where
  "universal_newlines [] = []"
| "universal_newlines [c] = (if c = CHR 0x0D then [CHR 0x0A] else [c])"
| "universal_newlines (c # d # ds) =
     (if c = CHR 0x0D \<and> d = CHR 0x0A then CHR 0x0A # universal_newlines ds
      else if c = CHR 0x0D then CHR 0x0A # universal_newlines (d # ds)
      else c # universal_newlines (d # ds))"

definition is_space :: "char \<Rightarrow> bool" where
  "is_space c = (c \<in> set [CHR 0x09, CHR 0x0A, CHR 0x0B, CHR 0x0C, CHR 0x0D,
                           CHR 0x1C, CHR 0x1D, CHR 0x1E, CHR 0x1F, CHR 0x20,
                           CHR 0x85, CHR 0xA0])"

definition strip :: "string \<Rightarrow> string" where
  "strip s = rev (dropWhile is_space (rev (dropWhile is_space s)))"

definition original_name_of :: "string \<Rightarrow> string" where
  "original_name_of txt =
     (let n = strip (universal_newlines txt) in if n = [] then ''assembled.bin'' else n)"

definition final_name :: "string \<Rightarrow> string \<Rightarrow> string" where
  "final_name uid original_name = uid @ ''__'' @ original_name"

text \<open>
  What the file system makes of a file name (one path component) on creation: a name
  with a slash names a file in a directory that is not there (the directories under
  UPLOAD\_ROOT are named by uuids), a NUL cannot be passed to \<open>open\<close>, and a name of
  more than 255 bytes in UTF-8 is refused (NAME\_MAX of the Linux file systems). The
  characters of a string are the code points below 256; those from 128 on take two
  bytes.
\<close>

definition utf8_length :: "string \<Rightarrow> nat" where
  "utf8_length s = sum_list (map (\<lambda>c. if (of_char c :: nat) < 128 then 1 else 2) s)"

definition creatable :: "string \<Rightarrow> bool" where
  "creatable name = (CHR ''/'' \<notin> set name \<and> CHR 0x00 \<notin> set name \<and> utf8_length name \<le> 255)"

text \<open>
  \<open>complete\<close> (named \<open>complete_srv\<close> here, \<open>complete\<close> being a constant of
  HOL): the first argument is the disk's behaviour during this request:
  \<open>None\<close> when every operation that can succeed does, \<open>Some OpenFails\<close> when
  opening the output file raises, \<open>Some (CopyFails n)\<close> when the copy raises with
  \<open>n\<close> bytes in the output file (\<open>shutil.copyfileobj\<close> copies buffer by buffer, so
  \<open>n\<close> may lie inside a chunk; all the bytes when \<open>n\<close> is not less than their
  number), \<open>Some (RmtreeFails rm_meta removed)\<close> when \<open>shutil.rmtree\<close> raises (the handler
  passes over it) having removed the chunk files of the indices \<open>removed\<close> and, if
  \<open>rm_meta\<close>, \<open>meta_filename.txt\<close>; the directory itself is then still there. The output file is opened under \<open>final_path\<close> itself with mode \<open>wb\<close>, which
  raises for a name that cannot be created, and the chunk files are copied into it one
  after the other; every exception of this part is answered with 500. Reading
  \<open>meta_filename.txt\<close> is outside the \<open>try\<close>: a missing file is a 500 of the
  framework.
\<close>

datatype fault = OpenFails | CopyFails nat | RmtreeFails bool "int list"

definition complete_srv :: "fault option \<Rightarrow> string \<Rightarrow> server \<Rightarrow> string response \<times> server" where
  "complete_srv flt uid s =
     (case dirs s uid of
        None \<Rightarrow> (HTTPError 404, s)
      | Some d \<Rightarrow>
          let chunk_files = sort_key fst (parts d) in
          if chunk_files = [] then (HTTPError 400, s)
          else
            (case meta_filename d of
               None \<Rightarrow> (HTTPError 500, s)
             | Some txt \<Rightarrow>
                 let final_path = final_name uid (original_name_of txt);
                     whole = concat (map snd chunk_files)
                 in if \<not> creatable final_path then (HTTPError 500, s)
                    else
                      (case flt of
                         Some OpenFails \<Rightarrow> (HTTPError 500, s)
                       | Some (CopyFails n) \<Rightarrow>
                           (HTTPError 500, s\<lparr>finals := (finals s)(final_path \<mapsto> take n whole)\<rparr>)
                       | Some (RmtreeFails rm_meta removed) \<Rightarrow>
                           (Ok200 final_path,
                            s\<lparr>finals := (finals s)(final_path \<mapsto> whole),
                              dirs := (dirs s)(uid \<mapsto>
                                \<lparr>meta_filename = (if rm_meta then None else Some txt),
                                 parts = filter (\<lambda>(k, b). k \<notin> set removed) (parts d)\<rparr>)\<rparr>)
                       | None \<Rightarrow>
                           (Ok200 final_path,
                            s\<lparr>finals := (finals s)(final_path \<mapsto> whole),
                              dirs := (dirs s)(uid := None)\<rparr>))))"

text \<open>The faults that make the writing of the output file raise.\<close>

fun write_fails :: "fault option \<Rightarrow> bool" where
  "write_fails (Some OpenFails) = True"
| "write_fails (Some (CopyFails n)) = True"
| "write_fails flt = False"

text \<open>
  The ids of the sessions: \<open>str(uuid.uuid4())\<close> is 36 characters, hexadecimal digits
  and dashes. A server state is what a sequence of requests leaves, each \<open>initiate\<close>
  with the uuid drawn for it. The handlers test \<open>os.path.exists\<close> of the id under
  UPLOAD\_ROOT, which for a uuid holds exactly when its session directory is there
  (the other entries of UPLOAD\_ROOT are the assembled files, named by a uuid, two
  underscores and more). An id that is not a uuid (\<open>.\<close>, \<open>..\<close>, the name of an
  assembled file) can pass that test without being a session; the handlers are
  modelled for uuids, the ids that \<open>initiate\<close> hands out and the uploader sends, and
  the statements on the answers of the server below are about uuids.
\<close>

definition uuid_shaped :: "string \<Rightarrow> bool" where
  "uuid_shaped u = (length u = 36 \<and> list_all (\<lambda>c. c \<in> set ''0123456789abcdef-'') u)"

datatype request =
    Initiate string string
  | PutChunk "nat option" string int bytes
  | Complete "fault option" string

fun handle :: "request \<Rightarrow> server \<Rightarrow> server" where
  "handle (Initiate u fname) s = snd (initiate u fname s)"
| "handle (PutChunk wfail uid index data) s = snd (upload_chunk wfail uid index data s)"
| "handle (Complete flt uid) s = snd (complete_srv flt uid s)"

fun uuid_drawn :: "request \<Rightarrow> bool" where
  "uuid_drawn (Initiate u fname) = uuid_shaped u"
| "uuid_drawn r = True"

definition serve :: "request list \<Rightarrow> server" where
  "serve reqs = fold handle reqs empty_server"

definition session_ok :: "string \<Rightarrow> session_dir \<Rightarrow> bool" where
  "session_ok uid d = (uuid_shaped uid \<and> distinct (map fst (parts d)))"

text \<open>Two uuids for the examples.\<close>

definition uuid_a :: string where "uuid_a = ''3f2b8c1e-5d4a-4e6f-9a7b-0c1d2e3f4a5b''"
definition uuid_b :: string where "uuid_b = ''7a9e1c3b-2f4d-4b6a-8c0e-1d3f5a7b9c2e''"

section \<open>The uploader (src/onboard/uploader.py)\<close>

text \<open>
  The progress file \<open><file>.uploadmeta.json\<close> is modelled by what \<open>json.load\<close>
  makes of it: \<open>Undecodable\<close> when it raises, \<open>Stored m\<close> for the five-key
  dictionary that \<open>save_meta\<close> writes (the only writer of the file). The upload id
  and checksum are strings, the sizes naturals (the server hands out CHUNK\_SIZE).
\<close>

record progress =
  upload_id :: string
  chunk_size :: nat
  file_size :: nat
  filename :: string
  file_md5 :: string

datatype meta_file = Undecodable | Stored progress

datatype exn = JSONDecodeError | ZeroDivisionError | ConnectionError | HTTPStatusError nat

text \<open>
  \<open>requests.exceptions.RequestException\<close> is the base class of the connection errors
  and of the \<open>HTTPError\<close> that \<open>raise_for_status\<close> raises.
\<close>

fun is_RequestException :: "exn \<Rightarrow> bool" where
  "is_RequestException ConnectionError = True"
| "is_RequestException (HTTPStatusError c) = True"
| "is_RequestException e = False"

datatype 'a outcome = Returned 'a | Raised exn

text \<open>
  The network between uploader and server: each request takes the next entry of
  \<open>net\<close>: \<open>Delivered\<close> (the server handles the request and the answer arrives),
  \<open>Lost\<close> (the request never reaches the server) or \<open>NoReply\<close> (the server
  handles the request, the answer does not arrive). An exhausted list means a network
  that delivers. The requests a run makes, its sleeps and its writes of the progress
  file are recorded in \<open>trace\<close>, oldest first.
\<close>

datatype delivery = Delivered | Lost | NoReply

datatype event =
    EInitiate string
  | EStatus string
  | EPut string nat bytes bool
  | EComplete string
  | ESleep nat
  | ESaveMeta progress
  | ERemoveMeta

record world =
  srv :: server
  meta :: "meta_file option"
  net :: "delivery list"
  trace :: "event list"

definition log :: "event \<Rightarrow> world \<Rightarrow> world" where
  "log e w = w\<lparr>trace := trace w @ [e]\<rparr>"

definition next_delivery :: "world \<Rightarrow> delivery \<times> world" where
  "next_delivery w = (case net w of [] \<Rightarrow> (Delivered, w) | d # ds \<Rightarrow> (d, w\<lparr>net := ds\<rparr>))"

definition RETRY_BACKOFF :: "nat list" where
  "RETRY_BACKOFF = [1, 2, 5, 10]"

definition load_meta :: "world \<Rightarrow> progress option outcome" where
  "load_meta w =
     (case meta w of
        None \<Rightarrow> Returned None
      | Some Undecodable \<Rightarrow> Raised JSONDecodeError
      | Some (Stored m) \<Rightarrow> Returned (Some m))"

definition save_meta :: "progress \<Rightarrow> world \<Rightarrow> world" where
  "save_meta m w = log (ESaveMeta m) (w\<lparr>meta := Some (Stored m)\<rparr>)"

text \<open>
  \<open>os.remove\<close> of the progress file, which the code wraps in \<open>try\<close> and
  \<open>except\<close>; the removal is taken to succeed.
\<close>

definition remove_meta :: "world \<Rightarrow> world" where
  "remove_meta w = log ERemoveMeta (w\<lparr>meta := None\<rparr>)"

text \<open>\<open>new_uid\<close> is the uuid the server draws if the request reaches it.\<close>

definition initiate_upload :: "string \<Rightarrow> string \<Rightarrow> world \<Rightarrow> (string \<times> nat) outcome \<times> world" where
  "initiate_upload new_uid fname w =
     (let (d, w1) = next_delivery (log (EInitiate fname) w) in
      case d of
        Lost \<Rightarrow> (Raised ConnectionError, w1)
      | NoReply \<Rightarrow> (Raised ConnectionError, w1\<lparr>srv := snd (initiate new_uid fname (srv w1))\<rparr>)
      | Delivered \<Rightarrow>
          (case initiate new_uid fname (srv w1) of
             (Ok200 info, s') \<Rightarrow> (Returned info, w1\<lparr>srv := s'\<rparr>)
           | (HTTPError c, s') \<Rightarrow> (Raised (HTTPStatusError c), w1\<lparr>srv := s'\<rparr>)))"

definition get_uploaded_chunks :: "string \<Rightarrow> world \<Rightarrow> int list outcome \<times> world" where
  "get_uploaded_chunks uid w =
     (let (d, w1) = next_delivery (log (EStatus uid) w) in
      case d of
        Lost \<Rightarrow> (Raised ConnectionError, w1)
      | NoReply \<Rightarrow> (Raised ConnectionError, w1)
      | Delivered \<Rightarrow>
          (case status uid (srv w1) of
             HTTPError c \<Rightarrow> if c = 404 then (Returned [], w1) else (Raised (HTTPStatusError c), w1)
           | Ok200 uploaded \<Rightarrow> (Returned uploaded, w1)))"

text \<open>The uploader's \<open>upload_chunk\<close> (the server's handler has the same name).\<close>

definition client_upload_chunk :: "string \<Rightarrow> nat \<Rightarrow> bytes \<Rightarrow> world \<Rightarrow> unit outcome \<times> world" where
  "client_upload_chunk uid idx data w =
     (let (d, w1) = next_delivery w in
      case d of
        Lost \<Rightarrow> (Raised ConnectionError, log (EPut uid idx data False) w1)
      | NoReply \<Rightarrow>
          (Raised ConnectionError,
           log (EPut uid idx data False)
             (w1\<lparr>srv := snd (upload_chunk None uid (int idx) data (srv w1))\<rparr>))
      | Delivered \<Rightarrow>
          (case upload_chunk None uid (int idx) data (srv w1) of
             (Ok200 j, s') \<Rightarrow> (Returned (), log (EPut uid idx data True) (w1\<lparr>srv := s'\<rparr>))
           | (HTTPError c, s') \<Rightarrow>
               (Raised (HTTPStatusError c), log (EPut uid idx data False) (w1\<lparr>srv := s'\<rparr>))))"

definition complete_upload :: "string \<Rightarrow> world \<Rightarrow> string outcome \<times> world" where
  "complete_upload uid w =
     (let (d, w1) = next_delivery (log (EComplete uid) w) in
      case d of
        Lost \<Rightarrow> (Raised ConnectionError, w1)
      | NoReply \<Rightarrow> (Raised ConnectionError, w1\<lparr>srv := snd (complete_srv None uid (srv w1))\<rparr>)
      | Delivered \<Rightarrow>
          (case complete_srv None uid (srv w1) of
             (Ok200 final_path, s') \<Rightarrow> (Returned final_path, w1\<lparr>srv := s'\<rparr>)
           | (HTTPError c, s') \<Rightarrow> (Raised (HTTPStatusError c), w1\<lparr>srv := s'\<rparr>)))"

text \<open>
  Where control goes after a piece of \<open>run_upload\<close>: on to the next statement,
  out of the function with a value, or out with an exception.
\<close>

datatype flow = Continue | Return bool | Raise exn

text \<open>
  The retry loop \<open>for attempt, backoff in enumerate(RETRY_BACKOFF, start=1)\<close> with its
  \<open>else\<close> branch: the first argument is what is left of the schedule.
\<close>

fun try_upload :: "nat list \<Rightarrow> string \<Rightarrow> nat \<Rightarrow> bytes \<Rightarrow> progress \<Rightarrow> world \<Rightarrow> flow \<times> world" where
  "try_upload [] uid idx data m w = (Return False, w)"
| "try_upload (backoff # rest) uid idx data m w =
     (case client_upload_chunk uid idx data w of
        (Returned u, w1) \<Rightarrow> (Continue, save_meta m w1)
      | (Raised e, w1) \<Rightarrow>
          if is_RequestException e then try_upload rest uid idx data m (log (ESleep backoff) w1)
          else (Raise e, w1))"

definition total_chunks_of :: "nat \<Rightarrow> nat \<Rightarrow> nat" where
  "total_chunks_of fsize cs = (fsize + cs - 1) div cs"

definition chunk_of :: "bytes \<Rightarrow> nat \<Rightarrow> nat \<Rightarrow> bytes" where
  "chunk_of file cs idx = take cs (drop (idx * cs) file)"

text \<open>
  The loop \<open>for idx in range(total_chunks)\<close>: the first argument is what is left of
  the range, \<open>uploaded\<close> the set of accepted indices (as a list), \<open>chunks_sent\<close> the
  count of chunks sent in this run. \<open>Continue\<close> is the loop's end or its \<open>break\<close>.
\<close>

fun send_chunks ::
  "nat list \<Rightarrow> bytes \<Rightarrow> string \<Rightarrow> nat \<Rightarrow> progress \<Rightarrow> int option \<Rightarrow> int list \<Rightarrow> nat \<Rightarrow> world
     \<Rightarrow> flow \<times> world" where
  "send_chunks [] file uid cs m max_chunks uploaded chunks_sent w = (Continue, w)"
| "send_chunks (idx # idxs) file uid cs m max_chunks uploaded chunks_sent w =
     (if int idx \<in> set uploaded
      then send_chunks idxs file uid cs m max_chunks uploaded chunks_sent w
      else if (case max_chunks of None \<Rightarrow> False | Some mc \<Rightarrow> mc \<le> int chunks_sent)
      then (Return False, w)
      else
        let chunk_data = chunk_of file cs idx in
        if chunk_data = [] then (Continue, w)
        else
          (case try_upload RETRY_BACKOFF uid idx chunk_data m w of
             (Continue, w1) \<Rightarrow>
               send_chunks idxs file uid cs m max_chunks (int idx # uploaded) (Suc chunks_sent) w1
           | (Return b, w1) \<Rightarrow> (Return b, w1)
           | (Raise e, w1) \<Rightarrow> (Raise e, w1)))"

text \<open>
  \<open>run_upload\<close>, in the order of the source: load the progress record and discard
  it when the checksum differs (\<open>load_or_discard\<close>, lines 86 to 96); initiate when
  there is none (\<open>open_session\<close>, lines 98 to 114); then count the chunks, ask for the
  accepted ones, send the others and complete (\<open>transfer\<close>, lines 116 to 182).
  \<open>md5\<close> is the checksum function, \<open>file\<close> the bytes of the file, \<open>fname\<close> its
  base name.
\<close>

definition load_or_discard :: "string \<Rightarrow> world \<Rightarrow> progress option outcome \<times> world" where
  "load_or_discard fmd5 w =
     (case load_meta w of
        Raised e \<Rightarrow> (Raised e, w)
      | Returned None \<Rightarrow> (Returned None, w)
      | Returned (Some m) \<Rightarrow>
          if file_md5 m \<noteq> fmd5 then (Returned None, remove_meta w) else (Returned (Some m), w))"

definition open_session ::
  "string \<Rightarrow> string \<Rightarrow> nat \<Rightarrow> string \<Rightarrow> progress option \<Rightarrow> world \<Rightarrow> progress outcome \<times> world" where
  "open_session new_uid fname fsize fmd5 meta0 w =
     (case meta0 of
        None \<Rightarrow>
          (case initiate_upload new_uid fname w of
             (Raised e, w1) \<Rightarrow> (Raised e, w1)
           | (Returned (uid, cs), w1) \<Rightarrow>
               let m = \<lparr>upload_id = uid, chunk_size = cs, file_size = fsize,
                        filename = fname, file_md5 = fmd5\<rparr>
               in (Returned m, save_meta m w1))
      | Some m \<Rightarrow> (Returned m, w))"

definition transfer :: "bytes \<Rightarrow> int option \<Rightarrow> progress \<Rightarrow> world \<Rightarrow> bool outcome \<times> world" where
  "transfer file max_chunks m w =
     (let uid = upload_id m; cs = chunk_size m in
      if cs = 0 then (Raised ZeroDivisionError, w)
      else
        let total_chunks = total_chunks_of (length file) cs;
            (uploaded, w1) = (case get_uploaded_chunks uid w of
                                (Returned l, w') \<Rightarrow> (l, w')
                              | (Raised e, w') \<Rightarrow> ([], w'))
        in case send_chunks [0..<total_chunks] file uid cs m max_chunks uploaded 0 w1 of
             (Continue, w2) \<Rightarrow>
               (case complete_upload uid w2 of
                  (Returned res, w3) \<Rightarrow> (Returned True, remove_meta w3)
                | (Raised e, w3) \<Rightarrow> (Returned False, w3))
           | (Return b, w2) \<Rightarrow> (Returned b, w2)
           | (Raise e, w2) \<Rightarrow> (Raised e, w2))"

definition run_upload ::
  "(bytes \<Rightarrow> string) \<Rightarrow> string \<Rightarrow> bytes \<Rightarrow> string \<Rightarrow> int option \<Rightarrow> world \<Rightarrow> bool outcome \<times> world" where
  "run_upload md5 new_uid file fname max_chunks w =
     (case load_or_discard (md5 file) w of
        (Raised e, w1) \<Rightarrow> (Raised e, w1)
      | (Returned meta0, w1) \<Rightarrow>
          (case open_session new_uid fname (length file) (md5 file) meta0 w1 of
             (Raised e, w2) \<Rightarrow> (Raised e, w2)
           | (Returned m, w2) \<Rightarrow> transfer file max_chunks m w2))"

text \<open>What a trace says: the chunk requests in it, with their index and whether accepted.\<close>

fun puts_of :: "event list \<Rightarrow> (nat \<times> bool) list" where
  "puts_of [] = []"
| "puts_of (EPut uid idx data ok # es) = (idx, ok) # puts_of es"
| "puts_of (e # es) = puts_of es"

text \<open>
  For the examples: a stand-in for the checksum (the file itself, so that different
  files have different checksums), a world with an empty server, no progress file and a
  network that delivers, and a progress record.
\<close>

definition toy_md5 :: "bytes \<Rightarrow> string" where
  "toy_md5 b = b"

definition world0 :: world where
  "world0 = \<lparr>srv = empty_server, meta = None, net = [], trace = []\<rparr>"

definition progress_a :: progress where
  "progress_a = \<lparr>upload_id = uuid_a, chunk_size = 2, file_size = 3, filename = ''f.bin'',
                  file_md5 = ''abc''\<rparr>"

text \<open>
  What the claims say of the chunk requests of a trace, for the loop (\<open>puts_ok\<close>, with
  the indices the loop ranges over and how it ended) and for a whole run (\<open>run_ok\<close>):
  no index is tried more often than the schedule is long, and an index with a failed
  request and no accepted one has used up the schedule, ended the run with False, is
  followed by no request for a later index and by no completion request.
\<close>

definition puts_ok :: "nat list \<Rightarrow> flow \<Rightarrow> event list \<Rightarrow> bool" where
  "puts_ok idxs r evs \<longleftrightarrow>
     (\<forall>u. EComplete u \<notin> set evs)
   \<and> fst ` set (puts_of evs) \<subseteq> set idxs
   \<and> (\<forall>i. count_list (puts_of evs) (i, False) \<le> length RETRY_BACKOFF)
   \<and> (\<forall>i. (i, False) \<in> set (puts_of evs) \<and> (i, True) \<notin> set (puts_of evs) \<longrightarrow>
          r = Return False
        \<and> count_list (puts_of evs) (i, False) = length RETRY_BACKOFF
        \<and> (\<forall>j \<in> fst ` set (puts_of evs). j \<le> i))"

definition run_ok :: "bool outcome \<Rightarrow> event list \<Rightarrow> bool" where
  "run_ok res evs \<longleftrightarrow>
     (\<forall>i. count_list (puts_of evs) (i, False) \<le> length RETRY_BACKOFF)
   \<and> (\<forall>i. (i, False) \<in> set (puts_of evs) \<and> (i, True) \<notin> set (puts_of evs) \<longrightarrow>
          res = Returned False
        \<and> count_list (puts_of evs) (i, False) = length RETRY_BACKOFF
        \<and> (\<forall>j \<in> fst ` set (puts_of evs). j \<le> i)
        \<and> (\<forall>u. EComplete u \<notin> set evs))"

text \<open>A world in which the session of \<open>progress_a\<close> is open on the server.\<close>

definition world_a :: world where
  "world_a = \<lparr>srv = serve [Initiate uuid_a ''f.bin''], meta = Some (Stored progress_a),
               net = [], trace = []\<rparr>"






section \<open>Server states and sessions\<close>

lemma handle_session_ok:
  assumes "uuid_drawn r" "\<And>uid d. dirs s uid = Some d \<Longrightarrow> session_ok uid d"
    and "dirs (handle r s) uid = Some d"
  shows "session_ok uid d"
proof (cases r)
  case (Initiate u fname)
  then show ?thesis using assms
    by (auto simp: initiate_def session_ok_def Let_def split: option.splits if_splits)
next
  case (PutChunk wfail u index data)
  then show ?thesis using assms
    by (auto simp: upload_chunk_def session_ok_def distinct_update split: option.splits if_splits)
next
  case (Complete flt u)
  then show ?thesis using assms
    by (auto simp: complete_srv_def session_ok_def Let_def distinct_map_filter
             split: option.splits if_splits fault.splits)
qed

lemma fold_handle_session_ok:
  "list_all uuid_drawn reqs \<Longrightarrow> (\<And>uid d. dirs s uid = Some d \<Longrightarrow> session_ok uid d)
   \<Longrightarrow> dirs (fold handle reqs s) uid = Some d \<Longrightarrow> session_ok uid d"
proof (induction reqs arbitrary: s)
  case Nil
  then show ?case by simp
next
  case (Cons r reqs)
  show ?case
  proof (rule Cons.IH [of "handle r s"])
    show "list_all uuid_drawn reqs" using Cons.prems(1) by simp
    show "dirs (fold handle reqs (handle r s)) uid = Some d" using Cons.prems(3) by simp
    fix u e assume "dirs (handle r s) u = Some e"
    then show "session_ok u e"
      using handle_session_ok [of r s u e] Cons.prems(1,2) by simp
  qed
qed

lemma serve_session_ok:
  "list_all uuid_drawn reqs \<Longrightarrow> dirs (serve reqs) uid = Some d \<Longrightarrow> session_ok uid d"
  unfolding serve_def by (rule fold_handle_session_ok) (auto simp: empty_server_def)

lemma final_name_inj:
  "length u = length u' \<Longrightarrow> final_name u a = final_name u' b \<Longrightarrow> u = u'"
  by (simp add: final_name_def)

lemma sort_key_fst_upto:
  assumes d: "distinct (map fst ps)" and k: "fst ` set ps = int ` {0..<n}"
  shows "sort_key fst ps = map (\<lambda>i. (int i, the (map_of ps (int i)))) [0..<n]"
proof -
  let ?qs = "sort_key fst ps"
  have "distinct (map fst ?qs)"
    using d by (metis distinct_map distinct_sort set_sort)
  moreover have "sorted (map fst ?qs)" by (rule sorted_sort_key)
  moreover have "set (map fst ?qs) = set (map int [0..<n])" using k by simp
  moreover have "sorted (map int [0..<n])" by (simp add: sorted_map strict_sorted_iff sorted_wrt_map)
  moreover have "distinct (map int [0..<n])" by (simp add: distinct_map inj_on_def)
  ultimately have keys: "map fst ?qs = map int [0..<n]"
    using sorted_distinct_set_unique by blast
  have "map (\<lambda>p. (fst p, the (map_of ps (fst p)))) ?qs = ?qs"
  proof (rule map_idI)
    fix p assume "p \<in> set ?qs"
    then have "p \<in> set ps" by simp
    then have "map_of ps (fst p) = Some (snd p)" by (simp add: map_of_eq_Some_iff [OF d])
    then show "(fst p, the (map_of ps (fst p))) = p" by (cases p) simp
  qed
  then have "?qs = map (\<lambda>k. (k, the (map_of ps k))) (map fst ?qs)" by (simp add: comp_def)
  then show ?thesis unfolding keys by (simp add: comp_def)
qed

section \<open>Assembly\<close>

lemma uuid_a_shaped: "uuid_shaped uuid_a" by (simp add: uuid_shaped_def uuid_a_def)

lemma utf8_length_le: "utf8_length s \<le> 2 * length s"
  unfolding utf8_length_def by (induction s) auto

lemma creatable_short:
  "CHR ''/'' \<notin> set name \<Longrightarrow> CHR 0x00 \<notin> set name \<Longrightarrow> length name \<le> 127 \<Longrightarrow> creatable name"
  using utf8_length_le [of name] by (simp add: creatable_def)

lemma creatable_uuid_a_f_bin: "creatable (uuid_a @ ''__f.bin'')"
  by (rule creatable_short) (simp_all add: uuid_a_def)

lemma creatable_uuid_b_f_bin: "creatable (uuid_b @ ''__f.bin'')"
  by (rule creatable_short) (simp_all add: uuid_b_def)

lemma not_creatable_slash: "\<not> creatable (uuid_a @ ''__a/b.bin'')"
  by (simp add: creatable_def)

lemmas serve_eval = serve_def initiate_def upload_chunk_def complete_srv_def status_def
  empty_server_def final_name_def original_name_of_def strip_def is_space_def Let_def
  creatable_uuid_a_f_bin creatable_uuid_b_f_bin not_creatable_slash

lemma status_keys:
  assumes "status uid s = Ok200 (map int [0..<n])" "dirs s uid = Some d"
  shows "fst ` set (parts d) = int ` {0..<n}"
proof -
  have "sort (map fst (parts d)) = map int [0..<n]" using assms by (simp add: status_def)
  then have "set (sort (map fst (parts d))) = set (map int [0..<n])" by simp
  then show ?thesis by simp
qed

lemma sort_key_Nil_iff: "sort_key f xs = [] \<longleftrightarrow> xs = []"
  by (metis length_0_conv length_sort)

lemma complete_srv_session:
  assumes "dirs s uid = Some d" "meta_filename d = Some nm" "parts d \<noteq> []"
  shows "complete_srv flt uid s =
           (if \<not> creatable (final_name uid (original_name_of nm)) then (HTTPError 500, s)
            else case flt of
                Some OpenFails \<Rightarrow> (HTTPError 500, s)
              | Some (CopyFails n) \<Rightarrow>
                  (HTTPError 500,
                   s\<lparr>finals := (finals s)(final_name uid (original_name_of nm) \<mapsto>
                         take n (concat (map snd (sort_key fst (parts d)))))\<rparr>)
              | Some (RmtreeFails rm_meta removed) \<Rightarrow>
                  (Ok200 (final_name uid (original_name_of nm)),
                   s\<lparr>finals := (finals s)(final_name uid (original_name_of nm) \<mapsto>
                         concat (map snd (sort_key fst (parts d)))),
                     dirs := (dirs s)(uid \<mapsto>
                       \<lparr>meta_filename = (if rm_meta then None else Some nm),
                        parts = filter (\<lambda>(k, b). k \<notin> set removed) (parts d)\<rparr>)\<rparr>)
              | None \<Rightarrow>
                  (Ok200 (final_name uid (original_name_of nm)),
                   s\<lparr>finals := (finals s)(final_name uid (original_name_of nm) \<mapsto>
                         concat (map snd (sort_key fst (parts d)))),
                     dirs := (dirs s)(uid := None)\<rparr>))"
  using assms by (simp add: complete_srv_def Let_def sort_key_Nil_iff)

lemma complete_srv_ok:
  assumes "dirs s uid = Some d" "meta_filename d = Some nm" "parts d \<noteq> []"
    and "creatable (final_name uid (original_name_of nm))"
  shows "complete_srv None uid s =
           (Ok200 (final_name uid (original_name_of nm)),
            s\<lparr>finals := (finals s)(final_name uid (original_name_of nm) \<mapsto>
                   concat (map snd (sort_key fst (parts d)))),
              dirs := (dirs s)(uid := None)\<rparr>)"
  using complete_srv_session [OF assms(1,2,3), of None] assms(4) by simp

lemma complete_srv_Ok200:
  assumes "dirs s uid = Some d" and "fst (complete_srv flt uid s) = Ok200 p"
  shows "\<exists>nm. meta_filename d = Some nm \<and> parts d \<noteq> [] \<and> p = final_name uid (original_name_of nm)
           \<and> creatable p \<and> \<not> write_fails flt
           \<and> finals (snd (complete_srv flt uid s)) p
               = Some (concat (map snd (sort_key fst (parts d))))"
proof -
  have ne: "parts d \<noteq> []"
    using assms by (auto simp: complete_srv_def Let_def sort_key_Nil_iff)
  obtain nm where nm: "meta_filename d = Some nm"
    using assms ne by (cases "meta_filename d") (auto simp: complete_srv_def Let_def sort_key_Nil_iff)
  show ?thesis
    using assms(2) nm ne unfolding complete_srv_session [OF assms(1) nm ne]
    by (cases flt rule: write_fails.cases) (auto split: if_splits)
qed

text \<open>
  C4. In a state the server can reach, when the completion of a session whose listed
  indices are 0 to n - 1 succeeds (answer 200 with the path p), the session has at least
  one chunk, the file written under p is the concatenation of the stored chunks in
  ascending order of index, and p is the upload id, two underscores and the original
  name; the id is a uuid of 36 characters, so the name of no other session's file,
  whatever its original name, is the same.
\<close>

theorem complete_assembles_in_order:
  assumes "list_all uuid_drawn reqs" and "dirs (serve reqs) uid = Some d"
    and "status uid (serve reqs) = Ok200 (map int [0..<n])"
    and "fst (complete_srv flt uid (serve reqs)) = Ok200 p"
  shows "0 < n
         \<and> (\<exists>nm. meta_filename d = Some nm \<and> p = final_name uid (original_name_of nm))
         \<and> finals (snd (complete_srv flt uid (serve reqs))) p
             = Some (concat (map (\<lambda>i. the (map_of (parts d) (int i))) [0..<n]))
         \<and> uuid_shaped uid
         \<and> (\<forall>uid' a b. uuid_shaped uid' \<and> uid' \<noteq> uid \<longrightarrow> final_name uid a \<noteq> final_name uid' b)"
proof -
  have ok: "session_ok uid d" using assms(1,2) by (rule serve_session_ok)
  obtain nm where nm: "meta_filename d = Some nm" and ne: "parts d \<noteq> []"
    and p: "p = final_name uid (original_name_of nm)"
    and fin: "finals (snd (complete_srv flt uid (serve reqs))) p
               = Some (concat (map snd (sort_key fst (parts d))))"
    using complete_srv_Ok200 [OF assms(2,4)] by blast
  have keys: "fst ` set (parts d) = int ` {0..<n}" using assms(3,2) by (rule status_keys)
  have n: "0 < n" using keys ne by (cases n) auto
  have srt: "sort_key fst (parts d) = map (\<lambda>i. (int i, the (map_of (parts d) (int i)))) [0..<n]"
    using ok keys by (simp add: session_ok_def sort_key_fst_upto)
  have 1: "finals (snd (complete_srv flt uid (serve reqs))) p
             = Some (concat (map (\<lambda>i. the (map_of (parts d) (int i))) [0..<n]))"
    using fin by (simp add: srt comp_def)
  have 2: "uuid_shaped uid" using ok by (simp add: session_ok_def)
  have 3: "\<forall>uid' a b. uuid_shaped uid' \<and> uid' \<noteq> uid \<longrightarrow> final_name uid a \<noteq> final_name uid' b"
    using 2 final_name_inj [of uid] by (auto simp: uuid_shaped_def)
  show ?thesis using n nm p 1 2 3 by blast
qed

theorem complete_assembles_in_order_witness:
  "fst (complete_srv None uuid_a
         (serve [Initiate uuid_a ''f.bin'', PutChunk None uuid_a 1 ''c'', PutChunk None uuid_a 0 ''ab'']))
     = Ok200 (uuid_a @ ''__f.bin'')
   \<and> finals (snd (complete_srv None uuid_a
         (serve [Initiate uuid_a ''f.bin'', PutChunk None uuid_a 1 ''c'', PutChunk None uuid_a 0 ''ab''])))
       (uuid_a @ ''__f.bin'') = Some ''abc''
   \<and> final_name uuid_a ''f.bin'' \<noteq> final_name uuid_b ''f.bin''"
  using complete_assembles_in_order [of
      "[Initiate uuid_a ''f.bin'', PutChunk None uuid_a 1 ''c'', PutChunk None uuid_a 0 ''ab'']"
      uuid_a "\<lparr>meta_filename = Some ''f.bin'', parts = [(1, ''c''), (0, ''ab'')]\<rparr>" 2 None
      "uuid_a @ ''__f.bin''"]
  by (simp add: serve_eval uuid_a_shaped uuid_shaped_def uuid_b_def, simp add: uuid_a_def)

section \<open>The completeness gate\<close>

text \<open>
  C1, as stated, fails: a file of three chunks (total\_chunks = 3) of which the server
  holds the chunks 0 and 2. Index 1 has no accepted chunk, yet the completion request
  succeeds and the file under the final name is chunk 0 followed by chunk 2.
\<close>

theorem completeness_gate_counterexample:
  "status uuid_a (serve [Initiate uuid_a ''f.bin'', PutChunk None uuid_a 0 ''a'',
                         PutChunk None uuid_a 2 ''c'']) = Ok200 [0, 2]
   \<and> fst (complete_srv None uuid_a
            (serve [Initiate uuid_a ''f.bin'', PutChunk None uuid_a 0 ''a'',
                    PutChunk None uuid_a 2 ''c''])) = Ok200 (uuid_a @ ''__f.bin'')
   \<and> finals (snd (complete_srv None uuid_a
            (serve [Initiate uuid_a ''f.bin'', PutChunk None uuid_a 0 ''a'',
                    PutChunk None uuid_a 2 ''c''])))
        (uuid_a @ ''__f.bin'') = Some ''ac''"
  by (simp add: serve_eval)

text \<open>
  C1, amended. The server is never told total\_chunks and checks no coverage. In a state
  it can reach, a completion request for a uuid answers 404 when there is no session
  directory of that id and 400 when the session has no chunk file at all, and leaves the
  server as it was. For a session with at least one chunk file the answer does not
  depend on which indices are there: it is 500 when \<open>meta_filename.txt\<close> is missing,
  the final name cannot be created or the writing of the output fails, and otherwise 200,
  the file under the final name being the concatenation of the chunk files present, in
  ascending order of index.
\<close>

theorem complete_fails_only_without_chunks:
  assumes "list_all uuid_drawn reqs" and "uuid_shaped uid"
  shows "case dirs (serve reqs) uid of
           None \<Rightarrow> complete_srv flt uid (serve reqs) = (HTTPError 404, serve reqs)
         | Some d \<Rightarrow>
             if parts d = [] then complete_srv flt uid (serve reqs) = (HTTPError 400, serve reqs)
             else
               (case meta_filename d of
                  None \<Rightarrow> complete_srv flt uid (serve reqs) = (HTTPError 500, serve reqs)
                | Some nm \<Rightarrow>
                    if creatable (final_name uid (original_name_of nm)) \<and> \<not> write_fails flt
                    then fst (complete_srv flt uid (serve reqs))
                           = Ok200 (final_name uid (original_name_of nm))
                       \<and> finals (snd (complete_srv flt uid (serve reqs)))
                             (final_name uid (original_name_of nm))
                           = Some (concat (map snd (sort_key fst (parts d))))
                       \<and> sorted (map fst (sort_key fst (parts d)))
                       \<and> set (sort_key fst (parts d)) = set (parts d)
                       \<and> length (sort_key fst (parts d)) = length (parts d)
                    else fst (complete_srv flt uid (serve reqs)) = HTTPError 500)"
proof (cases "dirs (serve reqs) uid")
  case None
  then show ?thesis by (simp add: complete_srv_def)
next
  case (Some d)
  show ?thesis
  proof (cases "parts d = []")
    case True
    then show ?thesis using Some by (simp add: complete_srv_def)
  next
    case False
    show ?thesis
    proof (cases "meta_filename d")
      case None
      then show ?thesis using Some False by (simp add: complete_srv_def Let_def sort_key_Nil_iff)
    next
      case (Some nm)
      show ?thesis
        using \<open>dirs (serve reqs) uid = Some d\<close> False Some
          complete_srv_session [OF \<open>dirs (serve reqs) uid = Some d\<close> Some False, of flt]
        by (cases flt rule: write_fails.cases) (simp_all add: sorted_sort_key)
    qed
  qed
qed

theorem complete_fails_only_without_chunks_witness:
  "fst (complete_srv None uuid_a
            (serve [Initiate uuid_a ''f.bin'', PutChunk None uuid_a 0 ''a'',
                    PutChunk None uuid_a 2 ''c''])) = Ok200 (final_name uuid_a ''f.bin'')
   \<and> fst (complete_srv None uuid_a
            (serve [Initiate uuid_a ''a/b.bin'', PutChunk None uuid_a 0 ''a''])) = HTTPError 500
   \<and> complete_srv None uuid_a (serve [Initiate uuid_a ''f.bin''])
       = (HTTPError 400, serve [Initiate uuid_a ''f.bin''])
   \<and> complete_srv None uuid_a (serve []) = (HTTPError 404, serve [])"
  using complete_fails_only_without_chunks [of
      "[Initiate uuid_a ''f.bin'', PutChunk None uuid_a 0 ''a'', PutChunk None uuid_a 2 ''c'']"
      uuid_a None]
    complete_fails_only_without_chunks [of
      "[Initiate uuid_a ''a/b.bin'', PutChunk None uuid_a 0 ''a'']" uuid_a None]
    complete_fails_only_without_chunks [of "[Initiate uuid_a ''f.bin'']" uuid_a None]
    complete_fails_only_without_chunks [of "[]" uuid_a None]
  by (simp add: serve_eval uuid_a_shaped)

section \<open>Failure during assembly\<close>





section \<open>Idempotence of chunk writes\<close>

lemma update_twice: "AList.update k v (AList.update k v ps) = AList.update k v ps"
  by (induction ps) auto

lemma upload_chunk_again:
  "upload_chunk None uid i b (snd (upload_chunk None uid i b s)) = upload_chunk None uid i b s"
  by (cases "dirs s uid") (simp_all add: upload_chunk_def update_twice)



section \<open>The uploader: evaluation and the network\<close>

lemmas client_eval = run_upload_def load_or_discard_def open_session_def transfer_def
  load_meta_def save_meta_def remove_meta_def initiate_upload_def get_uploaded_chunks_def
  client_upload_chunk_def complete_upload_def next_delivery_def log_def total_chunks_of_def
  chunk_of_def RETRY_BACKOFF_def world0_def toy_md5_def

lemma next_delivery_fields [simp]:
  "srv (snd (next_delivery w)) = srv w" "meta (snd (next_delivery w)) = meta w"
  "trace (snd (next_delivery w)) = trace w" "net (snd (next_delivery w)) = tl (net w)"
  by (simp_all add: next_delivery_def split: list.splits)

lemma client_upload_chunk_unknown:
  assumes "dirs (srv w) uid = None"
  shows "\<exists>e. is_RequestException e \<and>
           client_upload_chunk uid idx data w =
             (Raised e, w\<lparr>net := tl (net w), trace := trace w @ [EPut uid idx data False]\<rparr>)"
  using assms
  by (cases "net w"; cases "hd (net w)")
     (auto simp: client_upload_chunk_def next_delivery_def log_def upload_chunk_def)

lemma try_upload_unknown:
  "dirs (srv w) uid = None \<Longrightarrow>
   try_upload bs uid idx data m w =
     (Return False,
      w\<lparr>net := drop (length bs) (net w),
        trace := trace w @ concat (map (\<lambda>b. [EPut uid idx data False, ESleep b]) bs)\<rparr>)"
proof (induction bs arbitrary: w)
  case Nil
  then show ?case by simp
next
  case (Cons b bs)
  from client_upload_chunk_unknown [OF Cons.prems, of idx data]
  obtain e where e: "is_RequestException e"
    and c: "client_upload_chunk uid idx data w =
             (Raised e, w\<lparr>net := tl (net w), trace := trace w @ [EPut uid idx data False]\<rparr>)"
    by blast
  let ?w1 = "log (ESleep b) (w\<lparr>net := tl (net w), trace := trace w @ [EPut uid idx data False]\<rparr>)"
  have "dirs (srv ?w1) uid = None" using Cons.prems by (simp add: log_def)
  from Cons.IH [OF this] show ?case using e c
    by (simp add: log_def drop_Suc)
qed

section \<open>Resuming against an unknown session\<close>

lemma status_unknown:
  assumes "dirs (srv w) uid = None"
  shows "(case get_uploaded_chunks uid w of
            (Returned l, w') \<Rightarrow> (l, w')
          | (Raised e, w') \<Rightarrow> ([], w'))
         = ([], w\<lparr>net := tl (net w), trace := trace w @ [EStatus uid]\<rparr>)"
  using assms
  by (cases "net w"; cases "hd (net w)")
     (auto simp: get_uploaded_chunks_def next_delivery_def log_def status_def)

lemma complete_upload_unknown:
  assumes "dirs (srv w) uid = None"
  shows "\<exists>e. complete_upload uid w =
           (Raised e, w\<lparr>net := tl (net w), trace := trace w @ [EComplete uid]\<rparr>)"
  using assms
  by (cases "net w"; cases "hd (net w)")
     (auto simp: complete_upload_def next_delivery_def log_def complete_srv_def)

lemma total_chunks_of_0_iff: "0 < cs \<Longrightarrow> total_chunks_of n cs = 0 \<longleftrightarrow> n = 0"
  by (auto simp: total_chunks_of_def div_eq_0_iff)

lemma transfer_unknown:
  assumes "dirs (srv w) (upload_id m) = None" and "0 < chunk_size m"
  shows "fst (transfer file mc m w) = Returned False
       \<and> srv (snd (transfer file mc m w)) = srv w
       \<and> meta (snd (transfer file mc m w)) = meta w
       \<and> trace (snd (transfer file mc m w)) =
           trace w @ EStatus (upload_id m) #
             (if file = [] then [EComplete (upload_id m)]
              else if (case mc of None \<Rightarrow> False | Some k \<Rightarrow> k \<le> 0) then []
              else concat (map (\<lambda>b. [EPut (upload_id m) 0 (chunk_of file (chunk_size m) 0) False,
                                        ESleep b]) RETRY_BACKOFF))"
proof -
  let ?uid = "upload_id m" and ?cs = "chunk_size m"
  let ?w1 = "w\<lparr>net := tl (net w), trace := trace w @ [EStatus ?uid]\<rparr>"
  have d1: "dirs (srv ?w1) ?uid = None" using assms(1) by simp
  show ?thesis
  proof (cases "file = []")
    case True
    then have tot: "total_chunks_of (length file) ?cs = 0"
      using assms(2) by (simp add: total_chunks_of_0_iff)
    from complete_upload_unknown [OF d1] obtain e where
      "complete_upload ?uid ?w1 =
         (Raised e, ?w1\<lparr>net := tl (net ?w1), trace := trace ?w1 @ [EComplete ?uid]\<rparr>)" by blast
    then show ?thesis using assms(2) True tot status_unknown [OF assms(1)]
      by (simp add: transfer_def Let_def)
  next
    case False
    then have "0 < total_chunks_of (length file) ?cs"
      using assms(2) total_chunks_of_0_iff [of ?cs "length file"] by auto
    then have upt: "[0..<total_chunks_of (length file) ?cs]
                    = 0 # [1..<total_chunks_of (length file) ?cs]"
      by (simp add: upt_conv_Cons)
    have ch: "chunk_of file ?cs 0 \<noteq> []" using False assms(2) by (simp add: chunk_of_def)
    show ?thesis using assms(2) False ch status_unknown [OF assms(1)] try_upload_unknown [OF d1]
      by (simp add: transfer_def Let_def upt split: option.splits)
  qed
qed

text \<open>
  C10, amended. With a progress record whose checksum matches and whose session the
  server does not know (chunk size positive), whatever the network does: the status
  query gives the empty set (404 or an error, both read as no chunk accepted), no
  session is initiated, and the run returns False leaving server and progress record as
  they were. For a non-empty file it sends chunk 0 to the old session id once per entry
  of the backoff schedule, every attempt failing, and sends no other chunk (nothing at
  all when max\_chunks is zero or less); for an empty file it only asks for completion,
  which fails.
\<close>

theorem resume_unknown_session:
  assumes "meta w = Some (Stored m)" and "file_md5 m = md5 file"
    and "dirs (srv w) (upload_id m) = None" and "0 < chunk_size m"
  shows "fst (run_upload md5 new_uid file fname mc w) = Returned False
       \<and> srv (snd (run_upload md5 new_uid file fname mc w)) = srv w
       \<and> meta (snd (run_upload md5 new_uid file fname mc w)) = meta w
       \<and> trace (snd (run_upload md5 new_uid file fname mc w)) =
           trace w @ EStatus (upload_id m) #
             (if file = [] then [EComplete (upload_id m)]
              else if (case mc of None \<Rightarrow> False | Some k \<Rightarrow> k \<le> 0) then []
              else concat (map (\<lambda>b. [EPut (upload_id m) 0 (chunk_of file (chunk_size m) 0) False,
                                        ESleep b]) RETRY_BACKOFF))"
proof -
  have "run_upload md5 new_uid file fname mc w = transfer file mc m w"
    using assms(1,2) by (simp add: run_upload_def load_or_discard_def load_meta_def open_session_def)
  then show ?thesis using transfer_unknown [OF assms(3,4)] by simp
qed

theorem resume_unknown_session_witness:
  "fst (run_upload toy_md5 uuid_b ''abc'' ''f.bin'' None (world0\<lparr>meta := Some (Stored progress_a)\<rparr>))
     = Returned False
   \<and> trace (snd (run_upload toy_md5 uuid_b ''abc'' ''f.bin'' None
                    (world0\<lparr>meta := Some (Stored progress_a)\<rparr>)))
     = [EStatus uuid_a, EPut uuid_a 0 ''ab'' False, ESleep 1, EPut uuid_a 0 ''ab'' False, ESleep 2,
        EPut uuid_a 0 ''ab'' False, ESleep 5, EPut uuid_a 0 ''ab'' False, ESleep 10]"
  using resume_unknown_session [of "world0\<lparr>meta := Some (Stored progress_a)\<rparr>" progress_a
      toy_md5 "''abc''" uuid_b "''f.bin''" None]
  by (simp add: world0_def progress_a_def toy_md5_def empty_server_def chunk_of_def RETRY_BACKOFF_def)

text \<open>
  C10, as stated, fails: a file of two chunks, a progress record for a session the
  server does not know, a network that delivers. The run does not send every chunk again:
  it sends chunk 0 four times, each answered 404, never sends chunk 1, and returns False.
\<close>

theorem unknown_session_counterexample:
  "dirs (srv (world0\<lparr>meta := Some (Stored progress_a)\<rparr>)) uuid_a = None
   \<and> total_chunks_of (length ''abc'') (chunk_size progress_a) = 2
   \<and> run_upload toy_md5 uuid_b ''abc'' ''f.bin'' None (world0\<lparr>meta := Some (Stored progress_a)\<rparr>)
     = (Returned False,
        \<lparr>srv = empty_server, meta = Some (Stored progress_a), net = [],
         trace = [EStatus uuid_a, EPut uuid_a 0 ''ab'' False, ESleep 1,
                  EPut uuid_a 0 ''ab'' False, ESleep 2, EPut uuid_a 0 ''ab'' False, ESleep 5,
                  EPut uuid_a 0 ''ab'' False, ESleep 10]\<rparr>)"
  by (simp add: client_eval progress_a_def empty_server_def status_def upload_chunk_def Let_def)


section \<open>Retries and the end of a run\<close>

lemma puts_of_append: "puts_of (xs @ ys) = puts_of xs @ puts_of ys"
  by (induction xs rule: puts_of.induct) simp_all

lemma client_upload_chunk_cases:
  assumes "client_upload_chunk uid idx data w = (r, w')"
  shows "meta w' = meta w
       \<and> ((r = Returned () \<and> trace w' = trace w @ [EPut uid idx data True])
          \<or> (\<exists>e. r = Raised e \<and> is_RequestException e
                 \<and> trace w' = trace w @ [EPut uid idx data False]))"
proof (cases "dirs (srv w) uid")
  case None
  then show ?thesis using assms
    by (cases "net w"; cases "hd (net w)")
       (auto simp: client_upload_chunk_def next_delivery_def log_def upload_chunk_def)
next
  case (Some d)
  then show ?thesis using assms
    by (cases "net w"; cases "hd (net w)")
       (auto simp: client_upload_chunk_def next_delivery_def log_def upload_chunk_def)
qed

lemma try_upload_trace:
  "try_upload bs uid idx data m w = (r, w') \<Longrightarrow>
   \<exists>k. k \<le> length bs
      \<and> trace w' = trace w
           @ concat (map (\<lambda>b. [EPut uid idx data False, ESleep b]) (take k bs))
           @ (if r = Continue then [EPut uid idx data True, ESaveMeta m] else [])
      \<and> (r = Continue \<or> r = Return False \<and> k = length bs)"
proof (induction bs arbitrary: w)
  case Nil
  then show ?case by auto
next
  case (Cons b bs)
  obtain c w1 where c: "client_upload_chunk uid idx data w = (c, w1)" by (cases "client_upload_chunk uid idx data w")
  from client_upload_chunk_cases [OF c]
  consider (ok) "c = Returned ()" "trace w1 = trace w @ [EPut uid idx data True]"
    | (fail) e where "c = Raised e" "is_RequestException e"
        "trace w1 = trace w @ [EPut uid idx data False]"
    by blast
  then show ?case
  proof cases
    case ok
    then have "r = Continue" "w' = save_meta m w1" using Cons.prems c by auto
    then have "0 \<le> length (b # bs)
      \<and> trace w' = trace w
           @ concat (map (\<lambda>b. [EPut uid idx data False, ESleep b]) (take 0 (b # bs)))
           @ (if r = Continue then [EPut uid idx data True, ESaveMeta m] else [])
      \<and> (r = Continue \<or> r = Return False \<and> 0 = length (b # bs))"
      using ok by (simp add: save_meta_def log_def)
    then show ?thesis by blast
  next
    case fail
    then have "try_upload bs uid idx data m (log (ESleep b) w1) = (r, w')"
      using Cons.prems c by simp
    from Cons.IH [OF this] obtain k where k: "k \<le> length bs"
      "trace w' = trace (log (ESleep b) w1)
           @ concat (map (\<lambda>b. [EPut uid idx data False, ESleep b]) (take k bs))
           @ (if r = Continue then [EPut uid idx data True, ESaveMeta m] else [])"
      "r = Continue \<or> r = Return False \<and> k = length bs" by blast
    have "Suc k \<le> length (b # bs)
      \<and> trace w' = trace w
           @ concat (map (\<lambda>b. [EPut uid idx data False, ESleep b]) (take (Suc k) (b # bs)))
           @ (if r = Continue then [EPut uid idx data True, ESaveMeta m] else [])
      \<and> (r = Continue \<or> r = Return False \<and> Suc k = length (b # bs))"
      using k fail by (auto simp: log_def)
    then show ?thesis by blast
  qed
qed

lemma count_list_replicate: "count_list (replicate k x) y = (if x = y then k else 0)"
  by (induction k) auto

lemma count_list_0: "x \<notin> set xs \<Longrightarrow> count_list xs x = 0"
  by (induction xs) auto

lemma puts_of_failures:
  "puts_of (concat (map (\<lambda>b. [EPut uid idx data False, ESleep b]) bs))
     = replicate (length bs) (idx, False)"
  by (induction bs) simp_all

lemma try_upload_puts:
  assumes "try_upload bs uid idx data m w = (r, w')"
  shows "\<exists>evs k. trace w' = trace w @ evs \<and> k \<le> length bs
          \<and> (\<forall>u. EComplete u \<notin> set evs)
          \<and> puts_of evs = replicate k (idx, False) @ (if r = Continue then [(idx, True)] else [])
          \<and> (r = Continue \<or> r = Return False \<and> k = length bs)"
proof -
  from try_upload_trace [OF assms] obtain k where k: "k \<le> length bs"
    "trace w' = trace w
           @ concat (map (\<lambda>b. [EPut uid idx data False, ESleep b]) (take k bs))
           @ (if r = Continue then [EPut uid idx data True, ESaveMeta m] else [])"
    "r = Continue \<or> r = Return False \<and> k = length bs" by blast
  let ?evs = "concat (map (\<lambda>b. [EPut uid idx data False, ESleep b]) (take k bs))
           @ (if r = Continue then [EPut uid idx data True, ESaveMeta m] else [])"
  have "puts_of ?evs = replicate k (idx, False) @ (if r = Continue then [(idx, True)] else [])"
    using k(1) by (simp add: puts_of_append puts_of_failures)
  moreover have "\<forall>u. EComplete u \<notin> set ?evs" by auto
  ultimately show ?thesis using k by blast
qed

lemma puts_ok_Nil: "puts_ok idxs r []"
  by (simp add: puts_ok_def)

lemma puts_ok_mono: "puts_ok idxs r evs \<Longrightarrow> set idxs \<subseteq> set idxs' \<Longrightarrow> puts_ok idxs' r evs"
  unfolding puts_ok_def by blast

lemma puts_ok_exhausted:
  assumes "puts_of evs = replicate (length RETRY_BACKOFF) (idx, False)"
    and "\<forall>u. EComplete u \<notin> set evs"
  shows "puts_ok (idx # idxs) (Return False) evs"
  using assms unfolding puts_ok_def by (auto simp: count_list_replicate)

lemma puts_ok_sent:
  assumes p1: "puts_of evs1 = replicate k (idx, False) @ [(idx, True)]"
    and k: "k \<le> length RETRY_BACKOFF"
    and c1: "\<forall>u. EComplete u \<notin> set evs1"
    and ok: "puts_ok idxs r evs2" and less: "\<forall>j \<in> set idxs. idx < j"
  shows "puts_ok (idx # idxs) r (evs1 @ evs2)"
proof -
  let ?p2 = "puts_of evs2"
  have sub: "fst ` set ?p2 \<subseteq> set idxs" using ok by (simp add: puts_ok_def)
  then have notin: "\<And>b. (idx, b) \<notin> set ?p2" using less by force
  have puts: "puts_of (evs1 @ evs2) = replicate k (idx, False) @ [(idx, True)] @ ?p2"
    by (simp add: puts_of_append p1)
  have cnt: "count_list (puts_of (evs1 @ evs2)) (i, False)
        = (if i = idx then k else count_list ?p2 (i, False))" for i
    using notin [of False] by (auto simp: puts count_list_replicate count_list_0)
  have A: "\<forall>u. EComplete u \<notin> set (evs1 @ evs2)" using c1 ok by (auto simp: puts_ok_def)
  have B: "fst ` set (puts_of (evs1 @ evs2)) \<subseteq> set (idx # idxs)"
    using sub by (auto simp: puts)
  have C: "\<forall>i. count_list (puts_of (evs1 @ evs2)) (i, False) \<le> length RETRY_BACKOFF"
    using k ok by (simp add: cnt puts_ok_def)
  have D: "r = Return False
        \<and> count_list (puts_of (evs1 @ evs2)) (i, False) = length RETRY_BACKOFF
        \<and> (\<forall>j \<in> fst ` set (puts_of (evs1 @ evs2)). j \<le> i)"
    if h: "(i, False) \<in> set (puts_of (evs1 @ evs2))" "(i, True) \<notin> set (puts_of (evs1 @ evs2))" for i
  proof -
    have ne: "i \<noteq> idx" using h(2) by (auto simp: puts)
    then have h2: "(i, False) \<in> set ?p2" "(i, True) \<notin> set ?p2" using h by (auto simp: puts)
    then have E: "r = Return False" "count_list ?p2 (i, False) = length RETRY_BACKOFF"
      "\<forall>j \<in> fst ` set ?p2. j \<le> i" using ok unfolding puts_ok_def by blast+
    have "i \<in> set idxs" using h2(1) sub by force
    then have "idx < i" using less by blast
    then show ?thesis using E ne by (auto simp: cnt puts)
  qed
  show ?thesis unfolding puts_ok_def using A B C D by blast
qed

lemma send_chunks_puts:
  "sorted_wrt (<) idxs \<Longrightarrow> send_chunks idxs file uid cs m mc up sent w = (r, w') \<Longrightarrow>
   \<exists>evs. trace w' = trace w @ evs \<and> puts_ok idxs r evs"
proof (induction idxs arbitrary: up sent w)
  case Nil
  then show ?case by (auto simp: puts_ok_Nil)
next
  case (Cons idx idxs)
  have less: "\<forall>j \<in> set idxs. idx < j" and srt: "sorted_wrt (<) idxs" using Cons.prems(1) by auto
  show ?case
  proof (cases "int idx \<in> set up")
    case True
    then have "send_chunks idxs file uid cs m mc up sent w = (r, w')" using Cons.prems(2) by simp
    from Cons.IH [OF srt this] obtain evs where "trace w' = trace w @ evs" "puts_ok idxs r evs"
      by blast
    then show ?thesis using puts_ok_mono [of idxs r evs "idx # idxs"] by auto
  next
    case notup: False
    show ?thesis
    proof (cases "(case mc of None \<Rightarrow> False | Some k \<Rightarrow> k \<le> int sent) \<or> chunk_of file cs idx = []")
      case True
      then have "w' = w" using Cons.prems(2) notup by (auto simp: Let_def split: if_splits)
      then show ?thesis by (auto simp: puts_ok_Nil)
    next
      case False
      obtain r1 w1 where t: "try_upload RETRY_BACKOFF uid idx (chunk_of file cs idx) m w = (r1, w1)"
        by (cases "try_upload RETRY_BACKOFF uid idx (chunk_of file cs idx) m w")
      from try_upload_puts [OF t] obtain evs1 k where e1: "trace w1 = trace w @ evs1"
        "k \<le> length RETRY_BACKOFF" "\<forall>u. EComplete u \<notin> set evs1"
        "puts_of evs1 = replicate k (idx, False) @ (if r1 = Continue then [(idx, True)] else [])"
        "r1 = Continue \<or> r1 = Return False \<and> k = length RETRY_BACKOFF" by blast
      show ?thesis
      proof (cases "r1 = Continue")
        case True
        then have "send_chunks idxs file uid cs m mc (int idx # up) (Suc sent) w1 = (r, w')"
          using Cons.prems(2) notup False t by (simp add: Let_def)
        from Cons.IH [OF srt this] obtain evs2 where e2: "trace w' = trace w1 @ evs2"
          "puts_ok idxs r evs2" by blast
        have "puts_ok (idx # idxs) r (evs1 @ evs2)"
          using e1(4) True e1(2,3) e2(2) less by (intro puts_ok_sent) simp_all
        then show ?thesis using e1(1) e2(1) by auto
      next
        case nc: False
        then have r1: "r1 = Return False" "k = length RETRY_BACKOFF" using e1(5) by auto
        then have "r = Return False" "w' = w1" using Cons.prems(2) notup False t by (auto simp: Let_def)
        moreover have "puts_ok (idx # idxs) (Return False) evs1"
          using e1(3,4) r1 by (intro puts_ok_exhausted) simp_all
        ultimately show ?thesis using e1(1) by auto
      qed
    qed
  qed
qed

lemma run_ok_no_puts: "puts_of evs = [] \<Longrightarrow> run_ok res evs"
  by (simp add: run_ok_def)

lemma run_ok_frame:
  assumes "run_ok res evs" "puts_of pre = []" "\<forall>u. EComplete u \<notin> set pre"
  shows "run_ok res (pre @ evs)"
  using assms by (simp add: run_ok_def puts_of_append)

lemma get_uploaded_chunks_trace:
  "get_uploaded_chunks uid w = (r, w1) \<Longrightarrow> trace w1 = trace w @ [EStatus uid]"
  by (cases "net w"; cases "hd (net w)")
     (auto simp: get_uploaded_chunks_def next_delivery_def log_def split: response.splits if_splits)

lemma complete_upload_trace:
  "complete_upload uid w = (r, w1) \<Longrightarrow> trace w1 = trace w @ [EComplete uid]"
  by (cases "net w"; cases "hd (net w)")
     (auto simp: complete_upload_def next_delivery_def log_def split: response.splits prod.splits)

lemma transfer_run_ok:
  assumes "transfer file mc m w = (res, w')"
  shows "\<exists>evs. trace w' = trace w @ evs \<and> run_ok res evs"
proof (cases "chunk_size m = 0")
  case True
  then have "w' = w" using assms by (simp add: transfer_def)
  then show ?thesis by (auto simp: run_ok_no_puts)
next
  case False
  let ?uid = "upload_id m" and ?cs = "chunk_size m"
  obtain g w0 where g: "get_uploaded_chunks ?uid w = (g, w0)" by (cases "get_uploaded_chunks ?uid w")
  define up where "up = (case g of Returned l \<Rightarrow> l | Raised e \<Rightarrow> [])"
  have t0: "trace w0 = trace w @ [EStatus ?uid]" using g by (rule get_uploaded_chunks_trace)
  obtain r w1 where s: "send_chunks [0..<total_chunks_of (length file) ?cs] file ?uid ?cs m mc up 0 w0
      = (r, w1)" by (cases "send_chunks [0..<total_chunks_of (length file) ?cs] file ?uid ?cs m mc up 0 w0")
  have "sorted_wrt (<) [0..<total_chunks_of (length file) ?cs]" by simp
  from send_chunks_puts [OF this s] obtain evs where e: "trace w1 = trace w0 @ evs"
    "puts_ok [0..<total_chunks_of (length file) ?cs] r evs" by blast
  have unf: "transfer file mc m w =
      (case r of
         Continue \<Rightarrow> (case complete_upload ?uid w1 of
                        (Returned res, w3) \<Rightarrow> (Returned True, remove_meta w3)
                      | (Raised e, w3) \<Rightarrow> (Returned False, w3))
       | Return b \<Rightarrow> (Returned b, w1)
       | Raise e \<Rightarrow> (Raised e, w1))"
    using False g s by (cases g) (simp_all add: transfer_def Let_def up_def)
  show ?thesis
  proof (cases r)
    case Continue
    obtain c w3 where c: "complete_upload ?uid w1 = (c, w3)" by (cases "complete_upload ?uid w1")
    have t3: "trace w3 = trace w1 @ [EComplete ?uid]" using c by (rule complete_upload_trace)
    have nofail: "\<And>i. \<not> ((i, False) \<in> set (puts_of evs) \<and> (i, True) \<notin> set (puts_of evs))"
      using e(2) Continue unfolding puts_ok_def by auto
    have cnt: "\<forall>i. count_list (puts_of evs) (i, False) \<le> length RETRY_BACKOFF"
      using e(2) unfolding puts_ok_def by auto
    have "\<exists>post. trace w' = trace w3 @ post \<and> puts_of post = []"
      using assms unf Continue c by (cases c) (auto simp: remove_meta_def log_def)
    then obtain post where post: "trace w' = trace w3 @ post" "puts_of post = []" by blast
    have "run_ok res (EStatus ?uid # evs @ EComplete ?uid # post)"
      using nofail cnt post(2) by (simp add: run_ok_def puts_of_append) blast
    then show ?thesis using t0 e(1) t3 post(1) by auto
  next
    case (Return b)
    then have res: "res = Returned b" "w' = w1" using assms unf by auto
    have "run_ok res (EStatus ?uid # evs)"
      using e(2) Return res(1) unfolding puts_ok_def run_ok_def by auto
    then show ?thesis using t0 e(1) res(2) by auto
  next
    case (Raise x)
    then have res: "res = Raised x" "w' = w1" using assms unf by auto
    have "run_ok res (EStatus ?uid # evs)"
      using e(2) Raise unfolding puts_ok_def run_ok_def by auto
    then show ?thesis using t0 e(1) res(2) by auto
  qed
qed

lemma run_upload_run_ok:
  assumes "run_upload md5 new_uid file fname mc w = (res, w')"
  shows "\<exists>evs. trace w' = trace w @ evs \<and> run_ok res evs"
proof -
  obtain l w1 where l: "load_or_discard (md5 file) w = (l, w1)"
    by (cases "load_or_discard (md5 file) w")
  have "\<exists>pre. trace w1 = trace w @ pre \<and> puts_of pre = [] \<and> (\<forall>u. EComplete u \<notin> set pre)"
    using l by (auto simp: load_or_discard_def load_meta_def remove_meta_def log_def
        split: option.splits meta_file.splits if_splits)
  then obtain pre1 where p1: "trace w1 = trace w @ pre1" "puts_of pre1 = []"
    "\<forall>u. EComplete u \<notin> set pre1" by blast
  show ?thesis
  proof (cases l)
    case (Raised e)
    then have "res = Raised e" "w' = w1" using assms l by (auto simp: run_upload_def)
    then show ?thesis using p1 by (auto simp: run_ok_no_puts)
  next
    case (Returned meta0)
    obtain o2 w2 where o: "open_session new_uid fname (length file) (md5 file) meta0 w1 = (o2, w2)"
      by (cases "open_session new_uid fname (length file) (md5 file) meta0 w1")
    have "\<exists>pre. trace w2 = trace w1 @ pre \<and> puts_of pre = [] \<and> (\<forall>u. EComplete u \<notin> set pre)"
      using o by (cases "net w1"; cases "hd (net w1)")
        (auto simp: open_session_def initiate_upload_def initiate_def next_delivery_def log_def
          save_meta_def Let_def split: option.splits)
    then obtain pre2 where p2: "trace w2 = trace w1 @ pre2" "puts_of pre2 = []"
      "\<forall>u. EComplete u \<notin> set pre2" by blast
    have pre: "puts_of (pre1 @ pre2) = []" "\<forall>u. EComplete u \<notin> set (pre1 @ pre2)"
      using p1 p2 by (auto simp: puts_of_append)
    show ?thesis
    proof (cases o2)
      case (Raised e)
      then have "res = Raised e" "w' = w2" using assms l o Returned by (auto simp: run_upload_def)
      then show ?thesis using p1(1) p2(1) pre(1) run_ok_no_puts [of "pre1 @ pre2" res] by auto
    next
      case (Returned m)
      then have "transfer file mc m w2 = (res, w')"
        using assms l o \<open>l = Returned meta0\<close> by (auto simp: run_upload_def)
      from transfer_run_ok [OF this] obtain evs where e: "trace w' = trace w2 @ evs" "run_ok res evs"
        by blast
      have "run_ok res ((pre1 @ pre2) @ evs)" using e(2) pre by (rule run_ok_frame)
      then show ?thesis using e(1) p1(1) p2(1) by auto
    qed
  qed
qed

lemma length_RETRY_BACKOFF: "length RETRY_BACKOFF = 4"
  by (simp add: RETRY_BACKOFF_def)

text \<open>
  C7. The retry loop for one chunk makes at most four requests; each failed one is
  followed by the sleep of its place in the schedule 1, 2, 5, 10, and the loop ends
  either with an accepted request (and the progress file written) or, after four
  failures, by ending the run with False. In a whole run, whatever the network does, no
  index is requested in vain more than four times, and an index with a failed request
  and no accepted one has failed four times, the run has returned False, and no request
  for a later index and no completion request was made.
\<close>

theorem retries_follow_schedule_then_abort:
  "(\<exists>k \<le> 4.
       trace (snd (try_upload RETRY_BACKOFF uid idx data m w))
         = trace w
           @ concat (map (\<lambda>b. [EPut uid idx data False, ESleep b]) (take k [1, 2, 5, 10]))
           @ (if fst (try_upload RETRY_BACKOFF uid idx data m w) = Continue
              then [EPut uid idx data True, ESaveMeta m] else [])
     \<and> (fst (try_upload RETRY_BACKOFF uid idx data m w) = Continue
        \<or> fst (try_upload RETRY_BACKOFF uid idx data m w) = Return False \<and> k = 4))
   \<and> (\<exists>evs. trace (snd (run_upload md5 new_uid file fname mc w0)) = trace w0 @ evs
        \<and> (\<forall>i. count_list (puts_of evs) (i, False) \<le> 4)
        \<and> (\<forall>i. (i, False) \<in> set (puts_of evs) \<and> (i, True) \<notin> set (puts_of evs) \<longrightarrow>
               fst (run_upload md5 new_uid file fname mc w0) = Returned False
             \<and> count_list (puts_of evs) (i, False) = 4
             \<and> (\<forall>j \<in> fst ` set (puts_of evs). j \<le> i)
             \<and> (\<forall>u. EComplete u \<notin> set evs)))"
proof
  obtain r w2 where t: "try_upload RETRY_BACKOFF uid idx data m w = (r, w2)"
    by (cases "try_upload RETRY_BACKOFF uid idx data m w")
  from try_upload_trace [OF t] obtain k where k: "k \<le> length RETRY_BACKOFF"
    "trace w2 = trace w
           @ concat (map (\<lambda>b. [EPut uid idx data False, ESleep b]) (take k RETRY_BACKOFF))
           @ (if r = Continue then [EPut uid idx data True, ESaveMeta m] else [])"
    "r = Continue \<or> r = Return False \<and> k = length RETRY_BACKOFF" by blast
  have "k \<le> 4
     \<and> trace w2 = trace w
           @ concat (map (\<lambda>b. [EPut uid idx data False, ESleep b]) (take k [1, 2, 5, 10]))
           @ (if r = Continue then [EPut uid idx data True, ESaveMeta m] else [])
     \<and> (r = Continue \<or> r = Return False \<and> k = 4)"
  proof -
    have len: "length RETRY_BACKOFF = 4" and rb: "RETRY_BACKOFF = [1, 2, 5, 10]"
      by (simp_all add: RETRY_BACKOFF_def)
    show ?thesis using k(1) [unfolded len] k(2) [unfolded rb] k(3) [unfolded len] by blast
  qed
  then show "\<exists>k \<le> 4.
       trace (snd (try_upload RETRY_BACKOFF uid idx data m w))
         = trace w
           @ concat (map (\<lambda>b. [EPut uid idx data False, ESleep b]) (take k [1, 2, 5, 10]))
           @ (if fst (try_upload RETRY_BACKOFF uid idx data m w) = Continue
              then [EPut uid idx data True, ESaveMeta m] else [])
     \<and> (fst (try_upload RETRY_BACKOFF uid idx data m w) = Continue
        \<or> fst (try_upload RETRY_BACKOFF uid idx data m w) = Return False \<and> k = 4)"
    unfolding t fst_conv snd_conv by blast
next
  obtain res w' where r: "run_upload md5 new_uid file fname mc w0 = (res, w')"
    by (cases "run_upload md5 new_uid file fname mc w0")
  from run_upload_run_ok [OF r] show "\<exists>evs. trace (snd (run_upload md5 new_uid file fname mc w0)) = trace w0 @ evs
        \<and> (\<forall>i. count_list (puts_of evs) (i, False) \<le> 4)
        \<and> (\<forall>i. (i, False) \<in> set (puts_of evs) \<and> (i, True) \<notin> set (puts_of evs) \<longrightarrow>
               fst (run_upload md5 new_uid file fname mc w0) = Returned False
             \<and> count_list (puts_of evs) (i, False) = 4
             \<and> (\<forall>j \<in> fst ` set (puts_of evs). j \<le> i)
             \<and> (\<forall>u. EComplete u \<notin> set evs))"
    unfolding r fst_conv snd_conv run_ok_def length_RETRY_BACKOFF by blast
qed

theorem retries_follow_schedule_then_abort_witness:
  "fst (run_upload toy_md5 uuid_b ''abc'' ''f.bin'' None
          (world_a\<lparr>net := [Delivered, Delivered, Lost, Lost, NoReply, Lost]\<rparr>)) = Returned False
   \<and> trace (snd (run_upload toy_md5 uuid_b ''abc'' ''f.bin'' None
          (world_a\<lparr>net := [Delivered, Delivered, Lost, Lost, NoReply, Lost]\<rparr>)))
     = [EStatus uuid_a, EPut uuid_a 0 ''ab'' True, ESaveMeta progress_a,
        EPut uuid_a 1 ''c'' False, ESleep 1, EPut uuid_a 1 ''c'' False, ESleep 2,
        EPut uuid_a 1 ''c'' False, ESleep 5, EPut uuid_a 1 ''c'' False, ESleep 10]"
  using retries_follow_schedule_then_abort [of uuid_a 1 "''c''" progress_a world_a toy_md5
      uuid_b "''abc''" "''f.bin''" None
      "world_a\<lparr>net := [Delivered, Delivered, Lost, Lost, NoReply, Lost]\<rparr>"]
  by (simp add: client_eval serve_eval world_a_def progress_a_def)


section \<open>The chunks of a file\<close>

lemma total_chunks_of_bounds:
  assumes "0 < cs"
  shows "n \<le> total_chunks_of n cs * cs" and "0 < n \<Longrightarrow> (total_chunks_of n cs - 1) * cs < n"
proof -
  let ?t = "(n + cs - 1) div cs"
  have 1: "(n + cs - 1) = ?t * cs + (n + cs - 1) mod cs" by simp
  have 2: "(n + cs - 1) mod cs < cs" using assms by simp
  show "n \<le> total_chunks_of n cs * cs" using 1 2 unfolding total_chunks_of_def by linarith
  assume "0 < n"
  have "?t * cs \<le> n + cs - 1" by simp
  moreover have "0 < ?t" using \<open>0 < n\<close> assms by (simp add: div_greater_zero_iff)
  ultimately have "(?t - 1) * cs + cs \<le> n + cs - 1"
    by (metis Suc_diff_1 add.commute mult_Suc)
  then show "(total_chunks_of n cs - 1) * cs < n" using \<open>0 < n\<close> unfolding total_chunks_of_def by linarith
qed

lemma total_chunks_of_ceiling:
  assumes "0 < cs"
  shows "int (total_chunks_of n cs) = \<lceil>real n / real cs\<rceil>"
proof (cases "n = 0")
  case True
  then show ?thesis using assms by (simp add: total_chunks_of_def)
next
  case False
  let ?t = "total_chunks_of n cs"
  have up: "real n \<le> real ?t * real cs"
    using total_chunks_of_bounds(1) [OF assms, of n] by (metis of_nat_le_iff of_nat_mult)
  have "(?t - 1) * cs < n" using total_chunks_of_bounds(2) [OF assms] False by simp
  then have lo: "real (?t - 1) * real cs < real n" by (metis of_nat_less_iff of_nat_mult)
  have pos: "0 < ?t" using False assms total_chunks_of_bounds(1) [OF assms, of n]
    by (cases "?t = 0") auto
  have c: "0 < real cs" using assms by simp
  have "real n / real cs \<le> real ?t" using up c by (simp add: pos_divide_le_eq)
  moreover have "real ?t - 1 < real n / real cs"
    using lo c pos by (simp add: pos_less_divide_eq of_nat_diff)
  ultimately have "\<lceil>real n / real cs\<rceil> = int ?t"
    by (intro ceiling_unique) simp_all
  then show ?thesis by simp
qed

lemma chunk_of_nonempty:
  assumes "0 < cs" "i < total_chunks_of (length file) cs"
  shows "chunk_of file cs i \<noteq> []"
proof -
  have n: "0 < length file" using assms by (cases "length file = 0") (auto simp: total_chunks_of_def)
  have "i \<le> total_chunks_of (length file) cs - 1" using assms(2) by arith
  then have "i * cs \<le> (total_chunks_of (length file) cs - 1) * cs" by (rule mult_le_mono1)
  also have "\<dots> < length file" using total_chunks_of_bounds(2) [OF assms(1) n] .
  finally show ?thesis using assms(1) by (simp add: chunk_of_def)
qed

lemma concat_chunks_take:
  "concat (map (chunk_of file cs) [0..<n]) = take (n * cs) file"
proof (induction n)
  case 0
  then show ?case by simp
next
  case (Suc n)
  have "take (n * cs) file @ take cs (drop (n * cs) file) = take (n * cs + cs) file"
    by (simp add: take_add)
  then show ?case using Suc by (simp add: chunk_of_def add.commute)
qed

lemma concat_chunks:
  assumes "0 < cs"
  shows "concat (map (chunk_of file cs) [0..<total_chunks_of (length file) cs]) = file"
  using total_chunks_of_bounds(1) [OF assms, of "length file"] by (simp add: concat_chunks_take)

section \<open>A run on a network that delivers\<close>

lemma try_upload_reliable:
  assumes "net w = []" "dirs (srv w) uid = Some d"
  shows "try_upload (b # bs) uid idx data m w =
     (Continue,
      w\<lparr>srv := (srv w)\<lparr>dirs := (dirs (srv w))(uid \<mapsto>
                     d\<lparr>parts := AList.update (int idx) data (parts d)\<rparr>)\<rparr>,
        meta := Some (Stored m),
        trace := trace w @ [EPut uid idx data True, ESaveMeta m]\<rparr>)"
  using assms
  by (simp add: client_upload_chunk_def next_delivery_def log_def upload_chunk_def save_meta_def)

lemma send_chunks_reliable:
  "net w = [] \<Longrightarrow> dirs (srv w) uid = Some d \<Longrightarrow> distinct idxs
   \<Longrightarrow> \<forall>i \<in> set idxs. chunk_of file cs i \<noteq> [] \<Longrightarrow>
   \<exists>w' d'. send_chunks idxs file uid cs m None up sent w = (Continue, w')
     \<and> net w' = [] \<and> dirs (srv w') uid = Some d' \<and> meta_filename d' = meta_filename d
     \<and> finals (srv w') = finals (srv w)
     \<and> (distinct (map fst (parts d)) \<longrightarrow> distinct (map fst (parts d')))
     \<and> (\<forall>k. map_of (parts d') k =
            (if k \<in> int ` set idxs \<and> k \<notin> set up then Some (chunk_of file cs (nat k))
             else map_of (parts d) k))
     \<and> trace w' = trace w @ concat (map (\<lambda>i. [EPut uid i (chunk_of file cs i) True, ESaveMeta m])
                                      (filter (\<lambda>i. int i \<notin> set up) idxs))"
proof (induction idxs arbitrary: w d up sent)
  case Nil
  then show ?case by simp
next
  case (Cons idx idxs)
  have dist: "distinct idxs" "idx \<notin> set idxs" using Cons.prems(3) by auto
  have ne: "\<forall>i \<in> set idxs. chunk_of file cs i \<noteq> []" "chunk_of file cs idx \<noteq> []"
    using Cons.prems(4) by auto
  show ?case
  proof (cases "int idx \<in> set up")
    case True
    from Cons.IH [OF Cons.prems(1,2) dist(1) ne(1), of up sent]
    obtain w' d' where h: "send_chunks idxs file uid cs m None up sent w = (Continue, w')"
      "net w' = []" "dirs (srv w') uid = Some d'" "meta_filename d' = meta_filename d"
      "finals (srv w') = finals (srv w)"
      "distinct (map fst (parts d)) \<longrightarrow> distinct (map fst (parts d'))"
      "\<forall>k. map_of (parts d') k =
            (if k \<in> int ` set idxs \<and> k \<notin> set up then Some (chunk_of file cs (nat k))
             else map_of (parts d) k)"
      "trace w' = trace w @ concat (map (\<lambda>i. [EPut uid i (chunk_of file cs i) True, ESaveMeta m])
                                      (filter (\<lambda>i. int i \<notin> set up) idxs))" by blast
    have "\<forall>k. map_of (parts d') k =
            (if k \<in> int ` set (idx # idxs) \<and> k \<notin> set up then Some (chunk_of file cs (nat k))
             else map_of (parts d) k)" using h(7) True by auto
    then show ?thesis using h True by (intro exI [of _ w'] exI [of _ d']) simp
  next
    case False
    let ?d1 = "d\<lparr>parts := AList.update (int idx) (chunk_of file cs idx) (parts d)\<rparr>"
    let ?w1 = "w\<lparr>srv := (srv w)\<lparr>dirs := (dirs (srv w))(uid \<mapsto> ?d1)\<rparr>,
        meta := Some (Stored m),
        trace := trace w @ [EPut uid idx (chunk_of file cs idx) True, ESaveMeta m]\<rparr>"
    have t: "try_upload RETRY_BACKOFF uid idx (chunk_of file cs idx) m w = (Continue, ?w1)"
      unfolding RETRY_BACKOFF_def using Cons.prems(1,2) by (rule try_upload_reliable)
    have n1: "net ?w1 = []" and d1: "dirs (srv ?w1) uid = Some ?d1" using Cons.prems(1) by simp_all
    from Cons.IH [OF n1 d1 dist(1) ne(1), of "int idx # up" "Suc sent"]
    obtain w' d' where h: "send_chunks idxs file uid cs m None (int idx # up) (Suc sent) ?w1 = (Continue, w')"
      "net w' = []" "dirs (srv w') uid = Some d'" "meta_filename d' = meta_filename ?d1"
      "finals (srv w') = finals (srv ?w1)"
      "distinct (map fst (parts ?d1)) \<longrightarrow> distinct (map fst (parts d'))"
      "\<forall>k. map_of (parts d') k =
            (if k \<in> int ` set idxs \<and> k \<notin> set (int idx # up) then Some (chunk_of file cs (nat k))
             else map_of (parts ?d1) k)"
      "trace w' = trace ?w1 @ concat (map (\<lambda>i. [EPut uid i (chunk_of file cs i) True, ESaveMeta m])
                                      (filter (\<lambda>i. int i \<notin> set (int idx # up)) idxs))" by blast
    have s: "send_chunks (idx # idxs) file uid cs m None up sent w = (Continue, w')"
      using False ne(2) t h(1) by (simp add: Let_def)
    have f: "filter (\<lambda>i. int i \<notin> set (int idx # up)) idxs = filter (\<lambda>i. int i \<notin> set up) idxs"
      using dist(2) by (intro filter_cong) auto
    have m: "\<forall>k. map_of (parts d') k =
            (if k \<in> int ` set (idx # idxs) \<and> k \<notin> set up then Some (chunk_of file cs (nat k))
             else map_of (parts d) k)"
      using h(7) False by (auto simp: update_conv')
    have dd: "distinct (map fst (parts d)) \<longrightarrow> distinct (map fst (parts d'))"
      using h(6) by (simp add: distinct_update)
    have tr: "trace w' = trace w @ concat (map (\<lambda>i. [EPut uid i (chunk_of file cs i) True, ESaveMeta m])
                                      (filter (\<lambda>i. int i \<notin> set up) (idx # idxs)))"
      using h(8) [unfolded f] False by simp
    show ?thesis using s h(2,3,4,5) dd m tr by (intro exI [of _ w'] exI [of _ d']) simp
  qed
qed


lemma get_uploaded_chunks_reliable:
  assumes "net w = []" "dirs (srv w) uid = Some d"
  shows "get_uploaded_chunks uid w
         = (Returned (sort (map fst (parts d))), w\<lparr>trace := trace w @ [EStatus uid]\<rparr>)"
  using assms by (simp add: get_uploaded_chunks_def next_delivery_def log_def status_def)

lemma complete_upload_reliable:
  assumes "net w = []" "dirs (srv w) uid = Some d" "meta_filename d = Some nm" "parts d \<noteq> []"
    and "creatable (final_name uid (original_name_of nm))"
  shows "complete_upload uid w
         = (Returned (final_name uid (original_name_of nm)),
            w\<lparr>trace := trace w @ [EComplete uid],
              srv := (srv w)\<lparr>finals := (finals (srv w))(final_name uid (original_name_of nm) \<mapsto>
                        concat (map snd (sort_key fst (parts d)))),
                      dirs := (dirs (srv w))(uid := None)\<rparr>\<rparr>)"
  using assms(1) complete_srv_ok [OF assms(2,3,4,5)]
  by (simp add: complete_upload_def next_delivery_def log_def)

lemma assembled_is_file:
  assumes cs: "0 < cs" and d: "distinct (map fst ps)"
    and m: "\<forall>k. map_of ps k =
              (if k \<in> int ` {0..<total_chunks_of (length file) cs} \<and> k \<notin> U
               then Some (chunk_of file cs (nat k)) else map_of ps0 k)"
    and U: "U = fst ` set ps0" and sub: "U \<subseteq> int ` {0..<total_chunks_of (length file) cs}"
    and ok: "\<forall>(k, b) \<in> set ps0. b = chunk_of file cs (nat k)"
    and d0: "distinct (map fst ps0)"
  shows "concat (map snd (sort_key fst ps)) = file"
proof -
  let ?n = "total_chunks_of (length file) cs"
  have v: "map_of ps (int i) = Some (chunk_of file cs i)" if "i < ?n" for i
  proof (cases "int i \<in> U")
    case True
    then obtain b where b: "(int i, b) \<in> set ps0" using U by auto
    then have "b = chunk_of file cs i" using ok by auto
    moreover have "map_of ps0 (int i) = Some b" using b d0 by simp
    ultimately show ?thesis using m True by simp
  next
    case False
    then show ?thesis using m that by simp
  qed
  have "dom (map_of ps) = int ` {0..<?n}"
  proof (rule set_eqI)
    fix k show "k \<in> dom (map_of ps) \<longleftrightarrow> k \<in> int ` {0..<?n}"
    proof (cases "k \<in> int ` {0..<?n}")
      case True
      then obtain i where "k = int i" "i < ?n" by auto
      then show ?thesis using v True by auto
    next
      case False
      then have "k \<notin> U" using sub by auto
      then have "map_of ps0 k = None" using U by (simp add: map_of_eq_None_iff)
      then show ?thesis using m False by (auto simp: dom_def)
    qed
  qed
  then have keys: "fst ` set ps = int ` {0..<?n}" by (simp add: dom_map_of_conv_image_fst)
  have "sort_key fst ps = map (\<lambda>i. (int i, the (map_of ps (int i)))) [0..<?n]"
    using d keys by (rule sort_key_fst_upto)
  also have "\<dots> = map (\<lambda>i. (int i, chunk_of file cs i)) [0..<?n]" using v by simp
  finally have "concat (map snd (sort_key fst ps)) = concat (map (chunk_of file cs) [0..<?n])"
    by (simp add: comp_def)
  then show ?thesis using concat_chunks [OF cs, of "file"] by simp
qed

lemma transfer_completes:
  assumes net: "net w = []" and dir: "dirs (srv w) (upload_id m) = Some d"
    and nm: "meta_filename d = Some nm" and dist: "distinct (map fst (parts d))"
    and cs: "0 < chunk_size m" and ne: "file \<noteq> []"
    and sub: "fst ` set (parts d) \<subseteq> int ` {0..<total_chunks_of (length file) (chunk_size m)}"
    and ok: "\<forall>(k, b) \<in> set (parts d). b = chunk_of file (chunk_size m) (nat k)"
    and cr: "creatable (final_name (upload_id m) (original_name_of nm))"
  shows "fst (transfer file None m w) = Returned True
       \<and> finals (srv (snd (transfer file None m w))) (final_name (upload_id m) (original_name_of nm))
           = Some file
       \<and> dirs (srv (snd (transfer file None m w))) (upload_id m) = None
       \<and> meta (snd (transfer file None m w)) = None
       \<and> trace (snd (transfer file None m w))
           = trace w @ EStatus (upload_id m)
             # concat (map (\<lambda>i. [EPut (upload_id m) i (chunk_of file (chunk_size m) i) True,
                                  ESaveMeta m])
                 (filter (\<lambda>i. int i \<notin> fst ` set (parts d))
                    [0..<total_chunks_of (length file) (chunk_size m)]))
             @ [EComplete (upload_id m), ERemoveMeta]"
proof -
  let ?uid = "upload_id m" and ?cs = "chunk_size m"
  let ?n = "total_chunks_of (length file) ?cs"
  let ?up = "sort (map fst (parts d))"
  let ?w0 = "w\<lparr>trace := trace w @ [EStatus ?uid]\<rparr>"
  have g: "get_uploaded_chunks ?uid w = (Returned ?up, ?w0)"
    using net dir by (rule get_uploaded_chunks_reliable)
  have n0: "net ?w0 = []" and d0: "dirs (srv ?w0) ?uid = Some d" using net dir by simp_all
  have nonempty: "\<forall>i \<in> set [0..<?n]. chunk_of file ?cs i \<noteq> []"
    using chunk_of_nonempty [OF cs] by simp
  from send_chunks_reliable [OF n0 d0 distinct_upt nonempty, where m = m and up = ?up and sent = 0]
  obtain w1 d1 where h: "send_chunks [0..<?n] file ?uid ?cs m None ?up 0 ?w0 = (Continue, w1)"
    "net w1 = []" "dirs (srv w1) ?uid = Some d1" "meta_filename d1 = meta_filename d"
    "finals (srv w1) = finals (srv ?w0)"
    "distinct (map fst (parts d)) \<longrightarrow> distinct (map fst (parts d1))"
    "\<forall>k. map_of (parts d1) k =
            (if k \<in> int ` set [0..<?n] \<and> k \<notin> set ?up then Some (chunk_of file ?cs (nat k))
             else map_of (parts d) k)"
    "trace w1 = trace ?w0 @ concat (map (\<lambda>i. [EPut ?uid i (chunk_of file ?cs i) True, ESaveMeta m])
                                      (filter (\<lambda>i. int i \<notin> set ?up) [0..<?n]))" by blast
  have m1: "\<forall>k. map_of (parts d1) k =
            (if k \<in> int ` {0..<?n} \<and> k \<notin> fst ` set (parts d)
             then Some (chunk_of file ?cs (nat k)) else map_of (parts d) k)"
    using h(7) by simp
  have dist1: "distinct (map fst (parts d1))" using h(6) dist by simp
  have whole: "concat (map snd (sort_key fst (parts d1))) = file"
    using cs dist1 m1 refl sub ok dist by (rule assembled_is_file)
  have ne1: "parts d1 \<noteq> []" using whole ne by auto
  have nm1: "meta_filename d1 = Some nm" using h(4) nm by simp
  have c: "complete_upload ?uid w1
         = (Returned (final_name ?uid (original_name_of nm)),
            w1\<lparr>trace := trace w1 @ [EComplete ?uid],
              srv := (srv w1)\<lparr>finals := (finals (srv w1))(final_name ?uid (original_name_of nm) \<mapsto>
                        concat (map snd (sort_key fst (parts d1)))),
                      dirs := (dirs (srv w1))(?uid := None)\<rparr>\<rparr>)"
    using h(2,3) nm1 ne1 cr by (rule complete_upload_reliable)
  have unf: "transfer file None m w =
      (Returned True,
       remove_meta (w1\<lparr>trace := trace w1 @ [EComplete ?uid],
              srv := (srv w1)\<lparr>finals := (finals (srv w1))(final_name ?uid (original_name_of nm) \<mapsto>
                        concat (map snd (sort_key fst (parts d1)))),
                      dirs := (dirs (srv w1))(?uid := None)\<rparr>\<rparr>))"
    using cs g h(1) c by (simp add: transfer_def Let_def)
  show ?thesis unfolding unf using whole h(8) by (simp add: remove_meta_def log_def)
qed

lemma CHUNK_SIZE_pos: "0 < CHUNK_SIZE"
  by (simp add: CHUNK_SIZE_def)

lemma fresh_run:
  assumes net: "net w = []" and nometa: "meta w = None" and new: "dirs (srv w) new_uid = None"
    and ne: "file \<noteq> []" and cr: "creatable (final_name new_uid (original_name_of fname))"
  shows "fst (run_upload md5 new_uid file fname None w) = Returned True
       \<and> finals (srv (snd (run_upload md5 new_uid file fname None w)))
            (final_name new_uid (original_name_of fname)) = Some file
       \<and> meta (snd (run_upload md5 new_uid file fname None w)) = None
       \<and> trace (snd (run_upload md5 new_uid file fname None w))
           = trace w
             @ [EInitiate fname,
                ESaveMeta \<lparr>upload_id = new_uid, chunk_size = CHUNK_SIZE, file_size = length file,
                            filename = fname, file_md5 = md5 file\<rparr>,
                EStatus new_uid]
             @ concat (map (\<lambda>i. [EPut new_uid i (chunk_of file CHUNK_SIZE i) True,
                   ESaveMeta \<lparr>upload_id = new_uid, chunk_size = CHUNK_SIZE,
                               file_size = length file, filename = fname, file_md5 = md5 file\<rparr>])
                 [0..<total_chunks_of (length file) CHUNK_SIZE])
             @ [EComplete new_uid, ERemoveMeta]"
proof -
  let ?m = "\<lparr>upload_id = new_uid, chunk_size = CHUNK_SIZE, file_size = length file,
             filename = fname, file_md5 = md5 file\<rparr>"
  let ?d = "\<lparr>meta_filename = Some fname, parts = []\<rparr>"
  let ?w1 = "w\<lparr>srv := (srv w)\<lparr>dirs := (dirs (srv w))(new_uid \<mapsto> ?d)\<rparr>,
              meta := Some (Stored ?m),
              trace := trace w @ [EInitiate fname, ESaveMeta ?m]\<rparr>"
  have r: "run_upload md5 new_uid file fname None w = transfer file None ?m ?w1"
    using net nometa new
    by (simp add: run_upload_def load_or_discard_def load_meta_def open_session_def
        initiate_upload_def initiate_def next_delivery_def log_def save_meta_def Let_def)
  have n1: "net ?w1 = []" and d1: "dirs (srv ?w1) (upload_id ?m) = Some ?d" using net by simp_all
  have "fst (transfer file None ?m ?w1) = Returned True
       \<and> finals (srv (snd (transfer file None ?m ?w1))) (final_name (upload_id ?m) (original_name_of fname))
           = Some file
       \<and> dirs (srv (snd (transfer file None ?m ?w1))) (upload_id ?m) = None
       \<and> meta (snd (transfer file None ?m ?w1)) = None
       \<and> trace (snd (transfer file None ?m ?w1))
           = trace ?w1 @ EStatus (upload_id ?m)
             # concat (map (\<lambda>i. [EPut (upload_id ?m) i (chunk_of file (chunk_size ?m) i) True,
                                  ESaveMeta ?m])
                 (filter (\<lambda>i. int i \<notin> fst ` set (parts ?d))
                    [0..<total_chunks_of (length file) (chunk_size ?m)]))
             @ [EComplete (upload_id ?m), ERemoveMeta]"
    using n1 d1 ne cr by (intro transfer_completes) (simp_all add: CHUNK_SIZE_pos)
  then show ?thesis unfolding r by simp
qed


section \<open>Resuming a session\<close>



section \<open>The number of chunks\<close>

lemma total_chunks_of_one: "0 < n \<Longrightarrow> n \<le> cs \<Longrightarrow> total_chunks_of n cs = 1"
  unfolding total_chunks_of_def by (intro div_nat_eqI) simp_all

text \<open>
  C6, as stated, fails: for a file of no bytes the count of chunks is 0, not 1. A run on
  an empty server, without a progress record and on a network that delivers, initiates a
  session, sends no chunk and requests completion, which the server answers with 400
  (no chunks uploaded); the run returns False.
\<close>

theorem zero_byte_file_counterexample:
  "total_chunks_of (length ([] :: bytes)) CHUNK_SIZE = 0
   \<and> fst (run_upload toy_md5 uuid_a [] ''f.bin'' None world0) = Returned False
   \<and> trace (snd (run_upload toy_md5 uuid_a [] ''f.bin'' None world0))
       = [EInitiate ''f.bin'',
          ESaveMeta \<lparr>upload_id = uuid_a, chunk_size = CHUNK_SIZE, file_size = 0,
                      filename = ''f.bin'', file_md5 = []\<rparr>,
          EStatus uuid_a, EComplete uuid_a]
   \<and> fst (complete_srv None uuid_a (serve [Initiate uuid_a ''f.bin''])) = HTTPError 400"
  by (simp add: client_eval serve_eval CHUNK_SIZE_def)

text \<open>
  C6, amended. For a chunk size above 0 the count of chunks is the ceiling of file size
  by chunk size, with no minimum: it is 0 exactly for a file of no bytes, and 1 for a
  file of at least one byte and at most one chunk size. On a network that delivers, a
  run without a progress record initiates a session with the chunk size of the server
  (so nothing is divided by zero); for a file of no bytes the loop runs zero times, the
  completion request fails, no file is assembled and the run returns False; for a file
  of at least one byte and at most one chunk size, with a final name that can be created,
  the run sends the whole file as chunk 0, completion succeeds and the assembled file is
  the file.
\<close>

theorem total_chunks_without_minimum:
  assumes "net w = []" and "meta w = None" and "dirs (srv w) new_uid = None"
  shows "(0 < cs \<longrightarrow> int (total_chunks_of n cs) = \<lceil>real n / real cs\<rceil>
                   \<and> (total_chunks_of n cs = 0 \<longleftrightarrow> n = 0)
                   \<and> (0 < n \<and> n \<le> cs \<longrightarrow> total_chunks_of n cs = 1))
       \<and> (contents = [] \<longrightarrow>
            fst (run_upload md new_uid contents fname None w) = Returned False
          \<and> trace (snd (run_upload md new_uid contents fname None w))
              = trace w
                @ [EInitiate fname,
                   ESaveMeta \<lparr>upload_id = new_uid, chunk_size = CHUNK_SIZE, file_size = 0,
                               filename = fname, file_md5 = md contents\<rparr>,
                   EStatus new_uid, EComplete new_uid]
          \<and> finals (srv (snd (run_upload md new_uid contents fname None w))) = finals (srv w))
       \<and> (0 < length contents \<and> length contents \<le> CHUNK_SIZE
            \<and> creatable (final_name new_uid (original_name_of fname)) \<longrightarrow>
            fst (run_upload md new_uid contents fname None w) = Returned True
          \<and> trace (snd (run_upload md new_uid contents fname None w))
              = trace w
                @ [EInitiate fname,
                   ESaveMeta \<lparr>upload_id = new_uid, chunk_size = CHUNK_SIZE,
                               file_size = length contents, filename = fname,
                               file_md5 = md contents\<rparr>,
                   EStatus new_uid,
                   EPut new_uid 0 contents True,
                   ESaveMeta \<lparr>upload_id = new_uid, chunk_size = CHUNK_SIZE,
                               file_size = length contents, filename = fname,
                               file_md5 = md contents\<rparr>,
                   EComplete new_uid, ERemoveMeta]
          \<and> finals (srv (snd (run_upload md new_uid contents fname None w)))
               (final_name new_uid (original_name_of fname)) = Some contents)"
proof (intro conjI impI)
  assume cs: "0 < cs"
  show "int (total_chunks_of n cs) = \<lceil>real n / real cs\<rceil>" using cs by (rule total_chunks_of_ceiling)
  show "total_chunks_of n cs = 0 \<longleftrightarrow> n = 0" using cs by (rule total_chunks_of_0_iff)
  assume "0 < n \<and> n \<le> cs"
  then show "total_chunks_of n cs = 1" by (simp add: total_chunks_of_one)
next
  assume e: "contents = []"
  have t0: "total_chunks_of 0 CHUNK_SIZE = 0" by (simp add: total_chunks_of_def CHUNK_SIZE_def)
  have c0: "CHUNK_SIZE \<noteq> 0" by (simp add: CHUNK_SIZE_def)
  have run: "run_upload md new_uid contents fname None w =
      (Returned False,
       w\<lparr>srv := (srv w)\<lparr>dirs := (dirs (srv w))(new_uid \<mapsto> \<lparr>meta_filename = Some fname, parts = []\<rparr>)\<rparr>,
         meta := Some (Stored \<lparr>upload_id = new_uid, chunk_size = CHUNK_SIZE, file_size = 0,
                               filename = fname, file_md5 = md contents\<rparr>),
         trace := trace w @ [EInitiate fname,
                   ESaveMeta \<lparr>upload_id = new_uid, chunk_size = CHUNK_SIZE, file_size = 0,
                               filename = fname, file_md5 = md contents\<rparr>,
                   EStatus new_uid, EComplete new_uid]\<rparr>)"
    using assms e t0 c0
    by (simp add: run_upload_def load_or_discard_def load_meta_def open_session_def
        initiate_upload_def initiate_def next_delivery_def log_def save_meta_def Let_def
        transfer_def get_uploaded_chunks_def status_def complete_upload_def complete_srv_def)
  show "fst (run_upload md new_uid contents fname None w) = Returned False"
    unfolding run by simp
  show "trace (snd (run_upload md new_uid contents fname None w))
              = trace w
                @ [EInitiate fname,
                   ESaveMeta \<lparr>upload_id = new_uid, chunk_size = CHUNK_SIZE, file_size = 0,
                               filename = fname, file_md5 = md contents\<rparr>,
                   EStatus new_uid, EComplete new_uid]"
    unfolding run by simp
  show "finals (srv (snd (run_upload md new_uid contents fname None w))) = finals (srv w)"
    unfolding run by simp
next
  assume h: "0 < length contents \<and> length contents \<le> CHUNK_SIZE
            \<and> creatable (final_name new_uid (original_name_of fname))"
  then have ne: "contents \<noteq> []" by auto
  have one: "total_chunks_of (length contents) CHUNK_SIZE = 1" using h by (simp add: total_chunks_of_one)
  have ch: "chunk_of contents CHUNK_SIZE 0 = contents" using h by (simp add: chunk_of_def)
  note f = fresh_run [OF assms ne, of fname md] 
  show "fst (run_upload md new_uid contents fname None w) = Returned True" using f h by simp
  show "finals (srv (snd (run_upload md new_uid contents fname None w)))
               (final_name new_uid (original_name_of fname)) = Some contents" using f h by simp
  show "trace (snd (run_upload md new_uid contents fname None w))
              = trace w
                @ [EInitiate fname,
                   ESaveMeta \<lparr>upload_id = new_uid, chunk_size = CHUNK_SIZE,
                               file_size = length contents, filename = fname,
                               file_md5 = md contents\<rparr>,
                   EStatus new_uid,
                   EPut new_uid 0 contents True,
                   ESaveMeta \<lparr>upload_id = new_uid, chunk_size = CHUNK_SIZE,
                               file_size = length contents, filename = fname,
                               file_md5 = md contents\<rparr>,
                   EComplete new_uid, ERemoveMeta]"
    using f h unfolding one by (simp add: ch)
qed

theorem total_chunks_without_minimum_witness:
  "total_chunks_of 3 CHUNK_SIZE = 1
   \<and> fst (run_upload toy_md5 uuid_a ''abc'' ''f.bin'' None world0) = Returned True
   \<and> puts_of (trace (snd (run_upload toy_md5 uuid_a ''abc'' ''f.bin'' None world0))) = [(0, True)]
   \<and> finals (srv (snd (run_upload toy_md5 uuid_a ''abc'' ''f.bin'' None world0)))
        (final_name uuid_a ''f.bin'') = Some ''abc''
   \<and> fst (run_upload toy_md5 uuid_a [] ''f.bin'' None world0) = Returned False"
proof -
  have o: "original_name_of ''f.bin'' = ''f.bin''"
    by (simp add: original_name_of_def strip_def is_space_def)
  have h1: "net world0 = []" and h2: "meta world0 = None" and h3: "dirs (srv world0) uuid_a = None"
    by (simp_all add: world0_def empty_server_def)
  have c: "creatable (final_name uuid_a (original_name_of ''f.bin''))"
    by (simp add: o final_name_def creatable_uuid_a_f_bin)
  have l: "0 < length ''abc'' \<and> length ''abc'' \<le> CHUNK_SIZE" by (simp add: CHUNK_SIZE_def)
  have p: "0 < CHUNK_SIZE \<and> 0 < (3::nat) \<and> 3 \<le> CHUNK_SIZE" by (simp add: CHUNK_SIZE_def)
  show ?thesis
    using total_chunks_without_minimum [OF h1 h2 h3, of CHUNK_SIZE 3 "''abc''" toy_md5 "''f.bin''"]
      total_chunks_without_minimum [OF h1 h2 h3, of CHUNK_SIZE 3 "[]" toy_md5 "''f.bin''"]
      c l p
    by (simp add: o world0_def)
qed

section \<open>A progress file that cannot be decoded\<close>





section \<open>A file that changed between two runs\<close>











end
